theory Spec2Isabelle
  imports Complex_Main "HOL-Library.Word" "HOL-Library.Product_Lexorder" "HOL-Library.Multiset"
    "HOL-Library.AList"
begin

section \<open>Job store (jobManager.ts, database.ts)\<close>

text \<open>
  The job lifecycle lives in two places: the \<open>JobManager\<close> class (an in-memory
  \<open>Map<string, Job>\<close>) and the \<open>DatabaseProvider\<close> implementations of database.ts.
  Both are modelled by explicit state passing over a finite map from job ids to jobs.
  \<open>Date.now()\<close> is a parameter \<open>now\<close> of every operation that reads the clock.
\<close>

datatype JobStatus = Queued | Processing | Completed | Failed

record JobStats =
  framesProcessed :: "int option"
  textsDetected :: "int option"
  translationsApplied :: "int option"
  processingTime :: "string option"

text \<open>The interface \<open>Job\<close>; an optional property is an \<open>option\<close>, \<open>None\<close> being \<open>undefined\<close>.\<close>

record Job =
  jid :: string
  status :: JobStatus
  targetLanguage :: string
  options :: "string option"
  videoPath :: "string option"
  outputPath :: "string option"
  previewPath :: "string option"
  progress :: int
  error :: "string option"
  createdAt :: int
  updatedAt :: int
  stats :: "JobStats option"

text \<open>
  \<open>Partial<Job>\<close>: every key may be absent (\<open>None\<close>). For the optional properties of
  \<open>Job\<close> a key may also be present with the value \<open>undefined\<close> (\<open>Some None\<close>), which
  \<open>Object.assign\<close> copies like any other own property.
\<close>

record JobUpdates =
  u_id :: "string option"
  u_status :: "JobStatus option"
  u_targetLanguage :: "string option"
  u_options :: "string option option"
  u_videoPath :: "string option option"
  u_outputPath :: "string option option"
  u_previewPath :: "string option option"
  u_progress :: "int option"
  u_error :: "string option option"
  u_createdAt :: "int option"
  u_updatedAt :: "int option"
  u_stats :: "JobStats option option"

definition no_updates :: JobUpdates where
  "no_updates = \<lparr> u_id = None, u_status = None, u_targetLanguage = None, u_options = None,
     u_videoPath = None, u_outputPath = None, u_previewPath = None, u_progress = None,
     u_error = None, u_createdAt = None, u_updatedAt = None, u_stats = None \<rparr>"

definition orElse :: "'a option \<Rightarrow> 'a \<Rightarrow> 'a" where
  "orElse opt d = (case opt of None \<Rightarrow> d | Some v \<Rightarrow> v)"

text \<open>\<open>Object.assign(job, updates)\<close>: every key present in \<open>updates\<close> overwrites the job's.\<close>

definition assign :: "Job \<Rightarrow> JobUpdates \<Rightarrow> Job" where
  "assign job u = job \<lparr>
     jid := orElse (u_id u) (jid job),
     status := orElse (u_status u) (status job),
     targetLanguage := orElse (u_targetLanguage u) (targetLanguage job),
     options := orElse (u_options u) (options job),
     videoPath := orElse (u_videoPath u) (videoPath job),
     outputPath := orElse (u_outputPath u) (outputPath job),
     previewPath := orElse (u_previewPath u) (previewPath job),
     progress := orElse (u_progress u) (progress job),
     error := orElse (u_error u) (error job),
     createdAt := orElse (u_createdAt u) (createdAt job),
     updatedAt := orElse (u_updatedAt u) (updatedAt job),
     stats := orElse (u_stats u) (stats job) \<rparr>"

type_synonym JobStore = "string \<rightharpoonup> Job"

subsection \<open>JobManager\<close>

text \<open>\<open>JobManager.updateJob\<close>: \<open>Object.assign(job, updates, { updatedAt: Date.now() })\<close>.\<close>

definition updateJob :: "int \<Rightarrow> string \<Rightarrow> JobUpdates \<Rightarrow> JobStore \<Rightarrow> JobStore" where
  "updateJob now ident u jobs =
     (case jobs ident of
        None \<Rightarrow> jobs
      | Some job \<Rightarrow> jobs(ident \<mapsto> (assign job u) \<lparr> updatedAt := now \<rparr>))"

definition setJobProcessing :: "int \<Rightarrow> string \<Rightarrow> JobStore \<Rightarrow> JobStore" where
  "setJobProcessing now ident =
     updateJob now ident (no_updates \<lparr> u_status := Some Processing, u_progress := Some 10 \<rparr>)"

definition setJobCompleted ::
  "int \<Rightarrow> string \<Rightarrow> string \<Rightarrow> string option \<Rightarrow> JobStats option \<Rightarrow> JobStore \<Rightarrow> JobStore" where
  "setJobCompleted now ident outPath prevPath st =
     updateJob now ident (no_updates \<lparr> u_status := Some Completed, u_progress := Some 100,
       u_outputPath := Some (Some outPath), u_previewPath := Some prevPath, u_stats := Some st \<rparr>)"

definition setJobFailed :: "int \<Rightarrow> string \<Rightarrow> string \<Rightarrow> JobStore \<Rightarrow> JobStore" where
  "setJobFailed now ident err =
     updateJob now ident (no_updates \<lparr> u_status := Some Failed, u_progress := Some 0,
       u_error := Some (Some err) \<rparr>)"

definition updateProgress :: "int \<Rightarrow> string \<Rightarrow> int \<Rightarrow> JobStore \<Rightarrow> JobStore" where
  "updateProgress now ident p =
     updateJob now ident (no_updates \<lparr> u_progress := Some (min 100 (max 0 p)) \<rparr>)"

definition is_terminal :: "JobStatus \<Rightarrow> bool" where
  "is_terminal s = (s = Completed \<or> s = Failed)"

subsection \<open>MemoryDatabase\<close>

text \<open>
  \<open>MemoryDatabase.updateJob\<close> of database.ts: \<open>Object.assign(job, updates)\<close> and nothing
  else. The Postgres and SQLite providers of the same file, like \<open>JobManager.updateJob\<close>
  above, merge \<open>{ updatedAt: Date.now() }\<close> as a third argument.
\<close>

definition MemoryDatabase_updateJob :: "string \<Rightarrow> JobUpdates \<Rightarrow> JobStore \<Rightarrow> JobStore" where
  "MemoryDatabase_updateJob ident u jobs =
     (case jobs ident of
        None \<Rightarrow> jobs
      | Some job \<Rightarrow> jobs(ident \<mapsto> assign job u))"

text \<open>A job as \<open>createJob\<close> makes it (queued, progress 0, both timestamps the clock), for the concrete checks below.\<close>

definition job0 :: Job where
  "job0 = \<lparr> jid = ''job_1'', status = Queued, targetLanguage = ''French'', options = None,
            videoPath = None, outputPath = None, previewPath = None, progress = 0,
            error = None, createdAt = 100, updatedAt = 100, stats = None \<rparr>"

definition store0 :: JobStore where
  "store0 = Map.empty(''job_1'' \<mapsto> job0)"

section \<open>JavaScript strings and numbers\<close>

text \<open>
  A JavaScript string is a sequence of UTF-16 code units; \<open>length\<close>, \<open>slice\<close>, \<open>split('')\<close>
  and the regular expressions of the source (none has the \<open>u\<close> flag where it matters)
  all work on code units. Numbers are modelled by rationals: the rounding of IEEE doubles
  is not represented. Integer-valued quantities (pixel coordinates as the OCR service
  computes them from the detector's integer vertices, frame numbers \<open>index + 1\<close>) are \<open>int\<close>.
\<close>

type_synonym ustring = "16 word list"

definition ascii :: "string \<Rightarrow> ustring" where
  "ascii s = map (\<lambda>c. of_nat (of_char c)) s"

text \<open>The white-space class of ECMAScript regular expressions: white space and line terminators.\<close>

definition is_space :: "16 word \<Rightarrow> bool" where
  "is_space c = (c = 0x09 \<or> c = 0x0A \<or> c = 0x0B \<or> c = 0x0C \<or> c = 0x0D \<or> c = 0x20
     \<or> c = 0xA0 \<or> c = 0x1680 \<or> (0x2000 \<le> c \<and> c \<le> 0x200A) \<or> c = 0x2028 \<or> c = 0x2029
     \<or> c = 0x202F \<or> c = 0x205F \<or> c = 0x3000 \<or> c = 0xFEFF)"

definition trim :: "ustring \<Rightarrow> ustring" where
  "trim s = rev (dropWhile is_space (rev (dropWhile is_space s)))"

text \<open>
  Splitting at the white-space regular expression: the pieces between maximal runs of white space; a leading or trailing
  run yields an empty first or last piece, and the empty string yields one empty piece.
\<close>

function split_ws_from :: "ustring \<Rightarrow> ustring \<Rightarrow> ustring list" where
  "split_ws_from acc [] = [acc]"
| "split_ws_from acc (c # cs) =
     (if is_space c then acc # split_ws_from [] (dropWhile is_space cs)
      else split_ws_from (acc @ [c]) cs)"
  by pat_completeness auto
termination
  by (relation "measure (\<lambda>(acc, s). length s)") (auto simp: le_imp_less_Suc length_dropWhile_le)

definition split_ws :: "ustring \<Rightarrow> ustring list" where
  "split_ws s = split_ws_from [] s"

fun join :: "ustring \<Rightarrow> ustring list \<Rightarrow> ustring" where
  "join sep [] = []"
| "join sep [p] = p"
| "join sep (p # q # ps) = p @ sep @ join sep (q # ps)"

text \<open>\<open>s.slice(a, b)\<close> for \<open>0 \<le> a \<le> b\<close>.\<close>

definition slice :: "nat \<Rightarrow> nat \<Rightarrow> 'a list \<Rightarrow> 'a list" where
  "slice a b s = take (b - a) (drop a s)"

text \<open>\<open>a || d\<close> on strings: \<open>undefined\<close> and the empty string are falsy.\<close>

definition js_or :: "ustring option \<Rightarrow> ustring \<Rightarrow> ustring" where
  "js_or a d = (case a of None \<Rightarrow> d | Some [] \<Rightarrow> d | Some (c # cs) \<Rightarrow> c # cs)"

text \<open>\<open>Math.round\<close> rounds halves up; \<open>Math.ceil\<close> and \<open>Math.floor\<close> are \<open>ceiling\<close> and \<open>floor\<close>.\<close>

definition js_round :: "rat \<Rightarrow> int" where
  "js_round q = \<lfloor>q + 1 / 2\<rfloor>"

section \<open>Subtitle composer (subtitleComposer.ts)\<close>

definition strip_hash :: "ustring \<Rightarrow> ustring" where
  "strip_hash s = (case s of [] \<Rightarrow> [] | c # cs \<Rightarrow> if c = 0x23 then cs else c # cs)"

definition is_hex_digit :: "16 word \<Rightarrow> bool" where
  "is_hex_digit c = ((0x30 \<le> c \<and> c \<le> 0x39) \<or> (0x61 \<le> c \<and> c \<le> 0x66) \<or> (0x41 \<le> c \<and> c \<le> 0x46))"

text \<open>The test \<open>/^([0-9a-fA-F]{6}|[0-9a-fA-F]{8})$/\<close>.\<close>

definition hex_ok :: "ustring \<Rightarrow> bool" where
  "hex_ok h = ((length h = 6 \<or> length h = 8) \<and> list_all is_hex_digit h)"

definition hexToAss :: "ustring option \<Rightarrow> ustring option \<Rightarrow> ustring" where
  "hexToAss hex defaultHex =
     (let h0 = trim (strip_hash (js_or hex (js_or defaultHex [])));
          h = (if \<not> hex_ok h0 then strip_hash (js_or defaultHex (ascii ''000000'')) else h0)
      in if length h = 6
         then ascii ''&H00'' @ slice 4 6 h @ slice 2 4 h @ slice 0 2 h
         else ascii ''&H'' @ slice 6 8 h @ slice 4 6 h @ slice 2 4 h @ slice 0 2 h)"

text \<open>
  The module constants read from the environment. A numeric variable is its parsed value
  when set (\<open>Number(process.env.X || d)\<close>), a colour variable is the raw string.
\<close>

record ComposerEnv =
  ASS_BASE_FONTSIZE :: "rat option"
  ASS_BOX_PAD :: "rat option"
  ASS_MARGIN_V :: "rat option"
  ASS_FORCE_ONE_LINE :: "string option"
  CJK_WIDTH_FACTOR :: "rat option"
  LATIN_WIDTH_FACTOR :: "rat option"
  SUB_TEXT_COLOR :: "ustring option"
  SUB_BG_COLOR :: "ustring option"

definition env_unset :: ComposerEnv where
  "env_unset = \<lparr> ASS_BASE_FONTSIZE = None, ASS_BOX_PAD = None, ASS_MARGIN_V = None,
     ASS_FORCE_ONE_LINE = None, CJK_WIDTH_FACTOR = None, LATIN_WIDTH_FACTOR = None,
     SUB_TEXT_COLOR = None, SUB_BG_COLOR = None \<rparr>"

definition SUB_TEXT_ASS :: "ComposerEnv \<Rightarrow> ustring" where
  "SUB_TEXT_ASS env = hexToAss (SUB_TEXT_COLOR env) (Some (ascii ''FFFFFF''))"

definition SUB_BG_ASS :: "ComposerEnv \<Rightarrow> ustring" where
  "SUB_BG_ASS env = hexToAss (SUB_BG_COLOR env) (Some (ascii ''00000080''))"

record SubtitleOptions =
  baseFontSize :: "rat option"
  boxPad :: "rat option"
  marginV :: "rat option"
  textColorHex :: "ustring option"
  bgColorHex :: "ustring option"
  forceOneLine :: "bool option"
  cjkWidthFactor :: "rat option"
  latinWidthFactor :: "rat option"
  roundedRadius :: "rat option"
  bgBlur :: "rat option"

definition no_options :: SubtitleOptions where
  "no_options = \<lparr> baseFontSize = None, boxPad = None, marginV = None, textColorHex = None,
     bgColorHex = None, forceOneLine = None, cjkWidthFactor = None, latinWidthFactor = None,
     roundedRadius = None, bgBlur = None \<rparr>"

text \<open>The two colours as \<open>overlaySubtitlesBottomCenter\<close> resolves them.\<close>

definition textAss :: "ComposerEnv \<Rightarrow> SubtitleOptions \<Rightarrow> ustring" where
  "textAss env opts = hexToAss (textColorHex opts) (Some (SUB_TEXT_ASS env))"

definition backAss :: "ComposerEnv \<Rightarrow> SubtitleOptions \<Rightarrow> ustring" where
  "backAss env opts = hexToAss (bgColorHex opts) (Some (SUB_BG_ASS env))"

text \<open>\<open>isCJK\<close> of the composer: kana, CJK ideographs and compatibility ideographs.\<close>

definition isCJK_unit :: "16 word \<Rightarrow> bool" where
  "isCJK_unit c = ((0x3040 \<le> c \<and> c \<le> 0x30FF) \<or> (0x3400 \<le> c \<and> c \<le> 0x9FFF) \<or> (0xF900 \<le> c \<and> c \<le> 0xFAFF))"

definition isCJK :: "ustring \<Rightarrow> bool" where
  "isCJK s = list_ex isCJK_unit s"

text \<open>
  \<open>assTime\<close> turns seconds into centiseconds, clamped at zero, and prints them as
  \<open>h:mm:ss.cc\<close>; the model keeps the centiseconds.
\<close>

definition assTime :: "rat \<Rightarrow> int" where
  "assTime sec = max 0 (js_round (sec * 100))"

text \<open>
  \<open>escAss\<close>: the first replacement writes a backslash for a backslash; then braces become
  parentheses and a line feed becomes backslash, \<open>N\<close>.
\<close>

definition escAss :: "ustring \<Rightarrow> ustring" where
  "escAss s =
     concat (map (\<lambda>c. if c = 0x0A then [0x5C, 0x4E] else [c])
       (map (\<lambda>c. if c = 0x7D then 0x29 else c)
         (map (\<lambda>c. if c = 0x7B then 0x28 else c) s)))"

record DecidedFrame =
  df_frameNumber :: int
  df_text :: ustring

record MergedEvent =
  me_text :: ustring
  me_start :: rat
  me_end :: rat

text \<open>
  The loop of \<open>mergeFrameTexts\<close>, with its two variables \<open>events\<close> and \<open>current\<close>
  (\<open>None\<close> is \<open>null\<close>); the last equation is the push after the loop.
\<close>

fun merge_loop :: "rat \<Rightarrow> MergedEvent list \<Rightarrow> MergedEvent option \<Rightarrow> DecidedFrame list \<Rightarrow> MergedEvent list" where
  "merge_loop fps events current [] =
     (case current of None \<Rightarrow> events | Some c \<Rightarrow> events @ [c])"
| "merge_loop fps events current (f # fs) =
     (let t = df_text f;
          startSec = (of_int (df_frameNumber f) - 1) / fps;
          endSec = of_int (df_frameNumber f) / fps
      in case current of
           None \<Rightarrow> merge_loop fps events (Some \<lparr> me_text = t, me_start = startSec, me_end = endSec \<rparr>) fs
         | Some c \<Rightarrow>
             if t = me_text c then merge_loop fps events (Some (c \<lparr> me_end := endSec \<rparr>)) fs
             else merge_loop fps (events @ [c])
                    (Some \<lparr> me_text = t, me_start = startSec, me_end = endSec \<rparr>) fs)"

definition mergeFrameTexts :: "DecidedFrame list \<Rightarrow> rat \<Rightarrow> MergedEvent list" where
  "mergeFrameTexts frames fps = merge_loop fps [] None frames"

record FrameText =
  translatedText :: "ustring option"

record TranslatedFrame =
  tf_frameNumber :: int
  tf_texts :: "FrameText list"

text \<open>\<open>perFrame\<close>: the trimmed, non-empty translations of a frame joined by one space.\<close>

definition perFrame :: "TranslatedFrame \<Rightarrow> DecidedFrame" where
  "perFrame frame =
     \<lparr> df_frameNumber = tf_frameNumber frame,
       df_text = join (ascii '' '')
         (filter (\<lambda>p. p \<noteq> []) (map (\<lambda>t. trim (js_or (translatedText t) [])) (tf_texts frame))) \<rparr>"

text \<open>
  The layout parameters as \<open>overlaySubtitlesBottomCenter\<close> resolves them from the options
  and the module constants; \<open>vW\<close> is the video width that \<open>ffprobe\<close> reports (1280 when
  it reports none).
\<close>

record Layout =
  l_vW :: rat
  l_baseFontSize :: rat
  l_boxPad :: rat
  l_forceOneLine :: bool
  l_cjkFactor :: rat
  l_latinFactor :: rat

definition resolveLayout :: "ComposerEnv \<Rightarrow> SubtitleOptions \<Rightarrow> rat \<Rightarrow> Layout" where
  "resolveLayout env opts vW =
     \<lparr> l_vW = vW,
       l_baseFontSize = orElse (baseFontSize opts) (orElse (ASS_BASE_FONTSIZE env) 44),
       l_boxPad = orElse (boxPad opts) (orElse (ASS_BOX_PAD env) 10),
       l_forceOneLine = orElse (forceOneLine opts) (ASS_FORCE_ONE_LINE env = Some ''1''),
       l_cjkFactor = orElse (cjkWidthFactor opts) (orElse (CJK_WIDTH_FACTOR env) (9 / 10)),
       l_latinFactor = orElse (latinWidthFactor opts) (orElse (LATIN_WIDTH_FACTOR env) (31 / 50)) \<rparr>"

definition maxWidth :: "Layout \<Rightarrow> rat" where
  "maxWidth l = of_int \<lfloor>l_vW l * (9 / 10)\<rfloor> - l_boxPad l * 2"

definition estWidth :: "Layout \<Rightarrow> ustring \<Rightarrow> rat" where
  "estWidth l s = of_nat (length s) * (if isCJK s then l_cjkFactor l else l_latinFactor l) * l_baseFontSize l"

text \<open>\<open>decided\<close>: one line when the estimate fits (or one line is forced), else two halves.\<close>

definition decide :: "Layout \<Rightarrow> DecidedFrame \<Rightarrow> DecidedFrame" where
  "decide l pf =
     (let s = df_text pf in
      if s = [] then \<lparr> df_frameNumber = df_frameNumber pf, df_text = [] \<rparr>
      else
        let cjk = isCJK s;
            out =
              (if \<not> l_forceOneLine l \<and> estWidth l s > maxWidth l then
                 (if cjk then
                    (let half = nat \<lceil>of_nat (length s) / (2 :: rat)\<rceil>
                     in take half s @ [0x0A] @ drop half s)
                  else
                    (let words = split_ws s;
                         half = nat \<lceil>of_nat (length words) / (2 :: rat)\<rceil>
                     in join (ascii '' '') (take half words) @ [0x0A] @ join (ascii '' '') (drop half words)))
               else s)
        in \<lparr> df_frameNumber = df_frameNumber pf, df_text = out \<rparr>)"

text \<open>
  One \<open>Dialogue\<close> line of the generated markup: its start and end (centiseconds, as
  \<open>assTime\<close> prints them), the font size of its \<open>fs\<close> tag and its escaped text. The
  position and the badge shape do not enter the properties below and are left out.
\<close>

record SubtitleEvent =
  ev_start :: int
  ev_end :: int
  ev_fontSize :: rat
  ev_text :: ustring

definition emitEvents :: "Layout \<Rightarrow> MergedEvent list \<Rightarrow> SubtitleEvent list" where
  "emitEvents l merged =
     map (\<lambda>ev. \<lparr> ev_start = assTime (me_start ev), ev_end = assTime (me_end ev),
                 ev_fontSize = l_baseFontSize l, ev_text = escAss (me_text ev) \<rparr>)
       (filter (\<lambda>ev. me_text ev \<noteq> []) merged)"

definition overlaySubtitlesBottomCenter :: "Layout \<Rightarrow> TranslatedFrame list \<Rightarrow> SubtitleEvent list" where
  "overlaySubtitlesBottomCenter l translatedFrames =
     emitEvents l (mergeFrameTexts (map (decide l) (map perFrame translatedFrames)) 1)"

section \<open>Subtitle translator (subtitleTranslator.ts)\<close>

subsection \<open>normalizeCJKSpacing\<close>

text \<open>The character class of \<open>normalizeCJKSpacing\<close>: ideographs only, without kana.\<close>

definition isHan :: "16 word \<Rightarrow> bool" where
  "isHan c = ((0x3400 \<le> c \<and> c \<le> 0x9FFF) \<or> (0xF900 \<le> c \<and> c \<le> 0xFAFF))"

text \<open>
  The global replacement: at an ideograph followed by a non-empty run of white space and
  then (as a lookahead, not consumed) another ideograph, the run is dropped and the scan
  goes on at the second ideograph; anywhere else the scan moves on by one code unit.
\<close>

function replaceHanSpacing :: "ustring \<Rightarrow> ustring" where
  "replaceHanSpacing [] = []"
| "replaceHanSpacing (c # cs) =
     (case cs of
        [] \<Rightarrow> [c]
      | w # ws \<Rightarrow>
          if isHan c \<and> is_space w then
            (case dropWhile is_space ws of
               [] \<Rightarrow> c # replaceHanSpacing cs
             | d # ds \<Rightarrow> if isHan d then c # replaceHanSpacing (d # ds) else c # replaceHanSpacing cs)
          else c # replaceHanSpacing cs)"
  by pat_completeness auto
termination
  apply (relation "measure length")
     apply simp_all
  subgoal premises prems for c cs w ws d ds
  proof -
    have "length (dropWhile is_space ws) \<le> length ws"
      by (rule length_dropWhile_le)
    with prems show ?thesis by simp
  qed
  done

declare replaceHanSpacing.simps(2) [simp del]

definition normalizeCJKSpacing :: "ustring \<Rightarrow> ustring" where
  "normalizeCJKSpacing s =
     (if s = [] then s else if \<not> list_ex isHan s then s else replaceHanSpacing s)"

text \<open>
  The translation map is the plain object that \<open>translateTexts\<close> parsed from the answer of
  the model and returned, with the type \<open>Record<string, string>\<close>: its own keys are the
  finite map \<open>translationMap\<close>. Reading \<open>translationMap[text]\<close> follows the prototype
  chain: an own key gives its string; without an own key, a text that names a property of
  \<open>Object.prototype\<close> gives that property, a function (for \<open>__proto__\<close> the prototype
  object itself), which is truthy and not a string; any other text gives \<open>undefined\<close>.
\<close>

definition objectPrototypeNames :: "ustring list" where
  "objectPrototypeNames = map ascii
     [''constructor'', ''hasOwnProperty'', ''isPrototypeOf'', ''propertyIsEnumerable'',
      ''toLocaleString'', ''toString'', ''valueOf'', ''__proto__'',
      ''__defineGetter__'', ''__defineSetter__'', ''__lookupGetter__'', ''__lookupSetter__'']"

datatype TranslatedValue = Text ustring | Inherited

text \<open>The expression \<open>translationMap[textObj.text] || textObj.text\<close>.\<close>

definition lookupOrText :: "(ustring \<rightharpoonup> ustring) \<Rightarrow> ustring \<Rightarrow> TranslatedValue" where
  "lookupOrText translationMap txt =
     (case translationMap txt of
        Some v \<Rightarrow> Text (if v = [] then txt else v)
      | None \<Rightarrow> if txt \<in> set objectPrototypeNames then Inherited else Text txt)"

text \<open>
  \<open>normalizeCJKSpacing\<close> on the value it is handed at run time. An inherited property is
  truthy, and the test of the regular expression converts it to its source text, which
  has no ideograph: the function returns the value itself.
\<close>

definition normalizeValue :: "TranslatedValue \<Rightarrow> TranslatedValue" where
  "normalizeValue v = (case v of Text s \<Rightarrow> Text (normalizeCJKSpacing s) | Inherited \<Rightarrow> Inherited)"

text \<open>
  The \<open>translatedText\<close> that \<open>translateVideoAss\<close> and \<open>previewVideoAss\<close> attach to a line:
  the entry of the translation map, or the original text when the entry is missing or
  empty, normalised unless \<open>NORMALIZE_CJK_SPACING\<close> is the string \<open>0\<close>.
\<close>

definition applyTranslation :: "string option \<Rightarrow> (ustring \<rightharpoonup> ustring) \<Rightarrow> ustring \<Rightarrow> TranslatedValue" where
  "applyTranslation NORMALIZE_CJK_SPACING translationMap txt =
     (if NORMALIZE_CJK_SPACING = Some ''0'' then lookupOrText translationMap txt
      else normalizeValue (lookupOrText translationMap txt))"

subsection \<open>groupTextsIntoLines\<close>

record OCRBox =
  b_text :: ustring
  b_x :: int
  b_y :: int
  b_width :: int
  b_height :: int
  b_fontSize :: "int option"

record FrameDet =
  fd_frameNumber :: int
  fd_texts :: "OCRBox list"

record GroupedText =
  g_text :: ustring
  g_x :: int
  g_y :: int
  g_width :: int
  g_height :: int
  g_fontSize :: int

record GroupedFrame =
  gf_frameNumber :: int
  gf_texts :: "GroupedText list"

text \<open>A span is the pair \<open>(y, height)\<close>; an open line is its items and its span.\<close>

type_synonym Span = "int \<times> int"
type_synonym Line = "OCRBox list \<times> Span"

definition overlapsY :: "OCRBox \<Rightarrow> Span \<Rightarrow> bool" where
  "overlapsY a b =
     (let top = max (b_y a) (fst b);
          bottom = max top (min (b_y a + b_height a) (fst b + snd b));
          inter = bottom - top;
          minH = max 1 (min (b_height a) (snd b))
      in (of_int inter :: rat) / of_int minH \<ge> 1 / 2)"

text \<open>The inner loop: join the first line that overlaps, else open a new line at the end.\<close>

fun place :: "OCRBox \<Rightarrow> Line list \<Rightarrow> Line list" where
  "place t [] = [([t], (b_y t, b_height t))]"
| "place t (line # lines) =
     (if overlapsY t (snd line) then
        (let y1 = min (fst (snd line)) (b_y t);
             y2 = max (fst (snd line) + snd (snd line)) (b_y t + b_height t)
         in (fst line @ [t], (y1, y2 - y1)) # lines)
      else line # place t lines)"

text \<open>
  The items sorted by \<open>(y, x)\<close> (the sort is stable, as \<open>Array.prototype.sort\<close> is), then
  placed one after the other.
\<close>

definition sortedItems :: "OCRBox list \<Rightarrow> OCRBox list" where
  "sortedItems boxes = sort_key (\<lambda>b. (b_y b, b_x b)) boxes"

definition clusterLines :: "OCRBox list \<Rightarrow> Line list" where
  "clusterLines boxes = foldl (\<lambda>lines t. place t lines) [] (sortedItems boxes)"

text \<open>
  \<open>Math.min(...)\<close> and \<open>Math.max(...)\<close> over the items of a line, which is never empty
  (a line is opened with its first item).
\<close>

definition minimum :: "int list \<Rightarrow> int" where
  "minimum xs = fold min (tl xs) (hd xs)"

definition maximum :: "int list \<Rightarrow> int" where
  "maximum xs = fold max (tl xs) (hd xs)"

definition itemFontSize :: "OCRBox \<Rightarrow> int" where
  "itemFontSize i =
     (case b_fontSize i of
        None \<Rightarrow> js_round (of_int (b_height i) * (4 / 5))
      | Some n \<Rightarrow> if n = 0 then js_round (of_int (b_height i) * (4 / 5)) else n)"

definition finalizeLine :: "Line \<Rightarrow> GroupedText" where
  "finalizeLine line =
     (let sorted = sort_key b_x (fst line);
          minX = minimum (map b_x sorted);
          minY = minimum (map b_y sorted);
          maxX = maximum (map (\<lambda>i. b_x i + b_width i) sorted);
          maxY = maximum (map (\<lambda>i. b_y i + b_height i) sorted)
      in \<lparr> g_text = join (ascii '' '') (map b_text sorted), g_x = minX, g_y = minY,
           g_width = maxX - minX, g_height = maxY - minY,
           g_fontSize = maximum (map itemFontSize sorted) \<rparr>)"

definition groupTextsIntoLines :: "FrameDet \<Rightarrow> GroupedFrame" where
  "groupTextsIntoLines frame =
     \<lparr> gf_frameNumber = fd_frameNumber frame,
       gf_texts = map finalizeLine (clusterLines (fd_texts frame)) \<rparr>"

subsection \<open>filterSubtitleLike\<close>

text \<open>
  The environment of the filter: a numeric variable is its parsed value when set, the two
  textual ones are the raw strings.
\<close>

record FilterEnv =
  SUBTITLE_REGION :: "string option"
  SUBTITLE_REGION_FRACTION :: "rat option"
  SUBTITLE_MIN_CHARS :: "rat option"
  SUBTITLE_MIN_WORDS :: "rat option"
  SUBTITLE_MIN_ASPECT :: "rat option"
  SUBTITLE_MAX_LINES_PER_FRAME :: "rat option"
  SUBTITLE_REQUIRE_PERSISTENCE :: "string option"

definition filter_env_unset :: FilterEnv where
  "filter_env_unset = \<lparr> SUBTITLE_REGION = None, SUBTITLE_REGION_FRACTION = None,
     SUBTITLE_MIN_CHARS = None, SUBTITLE_MIN_WORDS = None, SUBTITLE_MIN_ASPECT = None,
     SUBTITLE_MAX_LINES_PER_FRAME = None, SUBTITLE_REQUIRE_PERSISTENCE = None \<rparr>"

definition toLowerCase :: "string \<Rightarrow> string" where
  "toLowerCase s =
     map (\<lambda>c. if (65::nat) \<le> of_char c \<and> of_char c \<le> (90::nat) then char_of (of_char c + (32::nat)) else c) s"

definition region :: "FilterEnv \<Rightarrow> string" where
  "region env =
     toLowerCase (case SUBTITLE_REGION env of None \<Rightarrow> ''bottom'' | Some [] \<Rightarrow> ''bottom'' | Some (c # cs) \<Rightarrow> c # cs)"

definition regionFrac :: "FilterEnv \<Rightarrow> rat" where
  "regionFrac env = min 1 (max (1 / 20) (orElse (SUBTITLE_REGION_FRACTION env) (1 / 2)))"

definition minChars :: "FilterEnv \<Rightarrow> rat" where
  "minChars env = max 1 (orElse (SUBTITLE_MIN_CHARS env) 6)"

definition minWords :: "FilterEnv \<Rightarrow> rat" where
  "minWords env = max 1 (orElse (SUBTITLE_MIN_WORDS env) 2)"

definition minAspect :: "FilterEnv \<Rightarrow> rat" where
  "minAspect env = max 1 (orElse (SUBTITLE_MIN_ASPECT env) 3)"

definition maxLinesPerFrame :: "FilterEnv \<Rightarrow> rat" where
  "maxLinesPerFrame env = max 1 (orElse (SUBTITLE_MAX_LINES_PER_FRAME env) 2)"

definition requirePersistence :: "FilterEnv \<Rightarrow> bool" where
  "requirePersistence env = (SUBTITLE_REQUIRE_PERSISTENCE env \<noteq> Some ''0'')"

definition estFrameHeight :: "GroupedFrame \<Rightarrow> int" where
  "estFrameHeight frame = max 1 (fold max (map (\<lambda>t. g_y t + g_height t) (gf_texts frame)) 0 + 10)"

text \<open>The band \<open>(regionStart, regionEnd)\<close>.\<close>

definition regionBand :: "FilterEnv \<Rightarrow> int \<Rightarrow> rat \<times> rat" where
  "regionBand env h =
     (if region env = ''bottom'' then (of_int h * (1 - regionFrac env), of_int h)
      else if region env = ''top'' then (0, of_int h * regionFrac env)
      else if region env = ''middle'' then
        (let mid = of_int h / 2; half = (of_int h * regionFrac env) / 2
         in (max 0 (mid - half), min (of_int h) (mid + half)))
      else (0, of_int h))"

definition wordCount :: "ustring \<Rightarrow> nat" where
  "wordCount s = length (filter (\<lambda>w. w \<noteq> []) (split_ws (trim s)))"

definition charCount :: "ustring \<Rightarrow> nat" where
  "charCount s = length (filter (\<lambda>c. \<not> is_space c) s)"

text \<open>The predicate of the per-frame \<open>filter\<close>.\<close>

definition subtitleLike :: "FilterEnv \<Rightarrow> rat \<times> rat \<Rightarrow> GroupedText \<Rightarrow> bool" where
  "subtitleLike env band t =
     (let aspect = (of_int (if g_width t = 0 then 1 else g_width t) :: rat) / of_int (max 1 (g_height t));
          lineMidY = (of_int (g_y t) :: rat) + of_int (g_height t) / 2;
          inRegion = (lineMidY \<ge> fst band \<and> lineMidY \<le> snd band);
          passesText = (of_nat (charCount (g_text t)) \<ge> minChars env \<and> of_nat (wordCount (g_text t)) \<ge> minWords env);
          passesAspect = (aspect \<ge> minAspect env)
      in inRegion \<and> passesText \<and> passesAspect)"

text \<open>One frame of \<open>prelim\<close>: the survivors, widest first, cut to the maximal number.\<close>

definition prelimFrame :: "FilterEnv \<Rightarrow> GroupedFrame \<Rightarrow> GroupedFrame" where
  "prelimFrame env frame =
     frame \<lparr> gf_texts :=
       take (nat \<lfloor>maxLinesPerFrame env\<rfloor>)
         (sort_key (\<lambda>t. - g_width t)
           (filter (subtitleLike env (regionBand env (estFrameHeight frame))) (gf_texts frame))) \<rparr>"

text \<open>
  \<open>occurrences\<close>, a \<open>Map\<close> from text to the frame numbers pushed in iteration order, as an
  association list in insertion order. A line whose text is empty is skipped.
\<close>

definition addOccurrence :: "int \<Rightarrow> (ustring \<times> int list) list \<Rightarrow> GroupedText \<Rightarrow> (ustring \<times> int list) list" where
  "addOccurrence n occ t =
     (if g_text t = [] then occ
      else AList.update (g_text t) (orElse (map_of occ (g_text t)) [] @ [n]) occ)"

definition occurrences :: "GroupedFrame list \<Rightarrow> (ustring \<times> int list) list" where
  "occurrences prelim = foldl (\<lambda>occ f. foldl (addOccurrence (gf_frameNumber f)) occ (gf_texts f)) [] prelim"

text \<open>The scan \<open>sorted[i] === sorted[i - 1] + 1\<close> for \<open>i\<close> from 1.\<close>

fun hasConsecutive :: "int list \<Rightarrow> bool" where
  "hasConsecutive (a # b # rest) = (b = a + 1 \<or> hasConsecutive (b # rest))"
| "hasConsecutive _ = False"

definition keepTexts :: "GroupedFrame list \<Rightarrow> ustring list" where
  "keepTexts prelim = map fst (filter (\<lambda>entry. hasConsecutive (sort (snd entry))) (occurrences prelim))"

definition persistenceFilter :: "GroupedFrame list \<Rightarrow> GroupedFrame list" where
  "persistenceFilter prelim =
     map (\<lambda>f. f \<lparr> gf_texts := filter (\<lambda>t. g_text t \<in> set (keepTexts prelim)) (gf_texts f) \<rparr>) prelim"

definition filterSubtitleLike :: "FilterEnv \<Rightarrow> GroupedFrame list \<Rightarrow> GroupedFrame list" where
  "filterSubtitleLike env frames =
     (let prelim = map (prelimFrame env) frames
      in if \<not> requirePersistence env then prelim else persistenceFilter prelim)"

subsection \<open>translateVideoAss\<close>

text \<open>
  The pure part of \<open>translateVideoAss\<close>, from the detections of the OCR service to the
  events of the markup. The translation map is what \<open>translateTexts\<close> returned.

  The frames with their \<open>translatedText\<close> are cast to \<open>TranslatedFrame[]\<close> without a check
  and handed to \<open>overlaySubtitlesBottomCenter\<close>, whose first statement calls \<open>trim\<close> on
  every truthy \<open>translatedText\<close>: on a value that is not a string this throws a
  \<open>TypeError\<close>, and \<open>translateVideoAss\<close> rethrows it.
\<close>

datatype JsError = TypeError

record RawTranslatedFrame =
  rf_frameNumber :: int
  rf_texts :: "TranslatedValue list"

definition toTranslatedFrame :: "string option \<Rightarrow> (ustring \<rightharpoonup> ustring) \<Rightarrow> GroupedFrame \<Rightarrow> RawTranslatedFrame" where
  "toTranslatedFrame NORMALIZE_CJK_SPACING translationMap frame =
     \<lparr> rf_frameNumber = gf_frameNumber frame,
       rf_texts = map (\<lambda>textObj. applyTranslation NORMALIZE_CJK_SPACING translationMap (g_text textObj))
                    (gf_texts frame) \<rparr>"

fun mapE :: "('a \<Rightarrow> JsError + 'b) \<Rightarrow> 'a list \<Rightarrow> JsError + 'b list" where
  "mapE f [] = Inr []"
| "mapE f (x # xs) =
     (case f x of
        Inl e \<Rightarrow> Inl e
      | Inr y \<Rightarrow> (case mapE f xs of Inl e \<Rightarrow> Inl e | Inr ys \<Rightarrow> Inr (y # ys)))"

definition asFrameText :: "TranslatedValue \<Rightarrow> JsError + FrameText" where
  "asFrameText v =
     (case v of Text s \<Rightarrow> Inr \<lparr> translatedText = Some s \<rparr> | Inherited \<Rightarrow> Inl TypeError)"

definition asTranslatedFrame :: "RawTranslatedFrame \<Rightarrow> JsError + TranslatedFrame" where
  "asTranslatedFrame frame =
     (case mapE asFrameText (rf_texts frame) of
        Inl e \<Rightarrow> Inl e
      | Inr ts \<Rightarrow> Inr \<lparr> tf_frameNumber = rf_frameNumber frame, tf_texts = ts \<rparr>)"

definition translateVideoAss ::
  "FilterEnv \<Rightarrow> string option \<Rightarrow> (ustring \<rightharpoonup> ustring) \<Rightarrow> Layout \<Rightarrow> FrameDet list \<Rightarrow> JsError + SubtitleEvent list" where
  "translateVideoAss fenv NORMALIZE_CJK_SPACING translationMap l detections =
     (let groupedFrames = map groupTextsIntoLines detections;
          subtitleFrames = filterSubtitleLike fenv groupedFrames;
          translatedFrames = map (toTranslatedFrame NORMALIZE_CJK_SPACING translationMap) subtitleFrames
      in case mapE asTranslatedFrame translatedFrames of
           Inl e \<Rightarrow> Inl e
         | Inr frames \<Rightarrow> Inr (overlaySubtitlesBottomCenter l frames))"

section \<open>Auxiliary notions for the timeline\<close>

text \<open>The event that \<open>mergeFrameTexts\<close> opens at a frame.\<close>

definition newEvent :: "rat \<Rightarrow> DecidedFrame \<Rightarrow> MergedEvent" where
  "newEvent fps f = \<lparr> me_text = df_text f, me_start = (of_int (df_frameNumber f) - 1) / fps,
                      me_end = of_int (df_frameNumber f) / fps \<rparr>"

text \<open>
  The invariant of the merge at one sample per second, for frames with increasing numbers:
  the events are ordered and disjoint, the last one ends at the last frame, and all times
  are whole seconds between the first frame's start and the last frame's end.
\<close>

definition mergeInv :: "DecidedFrame list \<Rightarrow> MergedEvent list \<Rightarrow> bool" where
  "mergeInv frames es \<longleftrightarrow>
     es \<noteq> [] \<and> me_end (last es) = of_int (df_frameNumber (last frames))
     \<and> sorted_wrt (\<lambda>a b. me_end a \<le> me_start b \<and> me_start a < me_start b) es
     \<and> (\<forall>e \<in> set es. me_start e < me_end e \<and> me_end e \<le> of_int (df_frameNumber (last frames))
           \<and> of_int (df_frameNumber (hd frames)) - 1 \<le> me_start e
           \<and> me_start e \<in> \<int> \<and> me_end e \<in> \<int>)"

definition textFrame :: "int \<Rightarrow> ustring \<Rightarrow> TranslatedFrame" where
  "textFrame n t = \<lparr> tf_frameNumber = n, tf_texts = [\<lparr> translatedText = Some t \<rparr>] \<rparr>"

section \<open>Auxiliary notions for the persistence filter\<close>

text \<open>
  The text \<open>t\<close> survived the per-frame pass in a frame numbered \<open>n\<close>: some frame of
  \<open>prelim\<close> with that number holds a line with that text.
\<close>

definition survivesIn :: "GroupedFrame list \<Rightarrow> ustring \<Rightarrow> int \<Rightarrow> bool" where
  "survivesIn prelim t n =
     list_ex (\<lambda>f. gf_frameNumber f = n \<and> list_ex (\<lambda>x. g_text x = t) (gf_texts f)) prelim"

text \<open>\<open>occurrences.get(text) || []\<close>.\<close>

definition occGet :: "(ustring \<times> int list) list \<Rightarrow> ustring \<Rightarrow> int list" where
  "occGet occ t = orElse (map_of occ t) []"

section \<open>Auxiliary notions for the spacing normalisation\<close>




section \<open>Auxiliary notions for the box clusterer\<close>

text \<open>
  The vertical overlap fraction of two boxes as the specification words it: the height of
  the intersection of the two vertical extents, divided by the shorter of the two
  heights. \<open>overlapsY\<close> above is the test of the source, which compares a box with the
  running span of a line and guards the divisor with a minimum of 1.
\<close>

definition verticalOverlapFraction :: "OCRBox \<Rightarrow> OCRBox \<Rightarrow> rat" where
  "verticalOverlapFraction a b =
     of_int (max 0 (min (b_y a + b_height a) (b_y b + b_height b) - max (b_y a) (b_y b)))
       / of_int (min (b_height a) (b_height b))"

text \<open>Two boxes of a frame are linked when their fraction reaches the threshold.\<close>

definition linked :: "OCRBox set \<Rightarrow> (OCRBox \<times> OCRBox) set" where
  "linked S = {(a, b). a \<in> S \<and> b \<in> S \<and> verticalOverlapFraction a b \<ge> 1 / 2}"

text \<open>
  The invariant of an open line while the sorted boxes are placed: it has items, all from
  the frame; its span starts at or above every item and ends where one of its items ends;
  and any two of its items are connected by a chain of linked boxes.
\<close>

definition lineOK :: "OCRBox set \<Rightarrow> Line \<Rightarrow> bool" where
  "lineOK S line \<longleftrightarrow>
     fst line \<noteq> [] \<and> set (fst line) \<subseteq> S
     \<and> (\<forall>m \<in> set (fst line). fst (snd line) \<le> b_y m)
     \<and> (\<exists>m \<in> set (fst line). b_y m + b_height m = fst (snd line) + snd (snd line))
     \<and> (\<forall>a \<in> set (fst line). \<forall>b \<in> set (fst line). (a, b) \<in> (linked S)\<^sup>*)"

section \<open>Auxiliary notions for the colours\<close>

text \<open>The value \<open>hexToAss\<close> returns for the digits \<open>h\<close> it has settled on.\<close>

definition assOf :: "ustring \<Rightarrow> ustring" where
  "assOf h =
     (if length h = 6 then ascii ''&H00'' @ slice 4 6 h @ slice 2 4 h @ slice 0 2 h
      else ascii ''&H'' @ slice 6 8 h @ slice 4 6 h @ slice 2 4 h @ slice 0 2 h)"

section \<open>Concrete inputs\<close>

text \<open>The layout of a job without options in an unset environment, for a video of width 1280.\<close>

definition defaultLayout :: Layout where
  "defaultLayout = resolveLayout env_unset no_options 1280"

text \<open>The two sampled frames of the end-to-end scenario and its translation map.\<close>

definition helloBox :: OCRBox where
  "helloBox = \<lparr> b_text = ascii ''HELLO'', b_x = 10, b_y = 500, b_width = 100, b_height = 30,
                b_fontSize = None \<rparr>"

definition helloFrames :: "FrameDet list" where
  "helloFrames = [\<lparr> fd_frameNumber = 1, fd_texts = [helloBox] \<rparr>,
                  \<lparr> fd_frameNumber = 2, fd_texts = [helloBox] \<rparr>]"

definition helloMap :: "ustring \<rightharpoonup> ustring" where
  "helloMap = Map.empty(ascii ''HELLO'' \<mapsto> ascii ''BONJOUR'')"

definition helloWorldFrames :: "FrameDet list" where
  "helloWorldFrames = [\<lparr> fd_frameNumber = 1, fd_texts = [helloBox \<lparr> b_text := ascii ''HELLO WORLD'' \<rparr>] \<rparr>,
                       \<lparr> fd_frameNumber = 2, fd_texts = [helloBox \<lparr> b_text := ascii ''HELLO WORLD'' \<rparr>] \<rparr>]"

definition helloWorldMap :: "ustring \<rightharpoonup> ustring" where
  "helloWorldMap = Map.empty(ascii ''HELLO WORLD'' \<mapsto> ascii ''BONJOUR'')"

text \<open>A phrase of two words of eleven letters on a video of width 320.\<close>

definition narrowLayout :: Layout where
  "narrowLayout = resolveLayout env_unset no_options 320"

definition widePhraseFrames :: "TranslatedFrame list" where
  "widePhraseFrames =
     [\<lparr> tf_frameNumber = 1, tf_texts = [\<lparr> translatedText = Some (ascii ''TRANSLATION UNAVAILABLE'') \<rparr>] \<rparr>]"

text \<open>Grouped frames whose lines pass the per-frame pass of the default configuration.\<close>

definition lineOf :: "string \<Rightarrow> int \<Rightarrow> GroupedText" where
  "lineOf txt yy = \<lparr> g_text = ascii txt, g_x = 100, g_y = yy, g_width = 300, g_height = 30, g_fontSize = 24 \<rparr>"

definition persistFrames :: "GroupedFrame list" where
  "persistFrames =
     [\<lparr> gf_frameNumber = 3, gf_texts = [lineOf ''HELLO WORLD'' 500, lineOf ''GOOD MORNING'' 460] \<rparr>,
      \<lparr> gf_frameNumber = 4, gf_texts = [lineOf ''HELLO WORLD'' 500] \<rparr>,
      \<lparr> gf_frameNumber = 5, gf_texts = [lineOf ''GOOD MORNING'' 460] \<rparr>]"

definition flickerFrames :: "GroupedFrame list" where
  "flickerFrames =
     [\<lparr> gf_frameNumber = 3, gf_texts = [lineOf ''HELLO WORLD'' 500] \<rparr>,
      \<lparr> gf_frameNumber = 4, gf_texts = [] \<rparr>]"




text \<open>Three words of one visual line, given out of order, and two boxes far apart.\<close>

definition boxAt :: "string \<Rightarrow> int \<Rightarrow> int \<Rightarrow> int \<Rightarrow> OCRBox" where
  "boxAt txt xx yy hh = \<lparr> b_text = ascii txt, b_x = xx, b_y = yy, b_width = 80, b_height = hh,
                          b_fontSize = None \<rparr>"

definition rowBoxes :: "OCRBox list" where
  "rowBoxes = [boxAt ''WORLD'' 200 505 30, boxAt ''HELLO'' 100 500 30, boxAt ''AGAIN'' 300 510 28]"

definition farBoxes :: "OCRBox list" where
  "farBoxes = [boxAt ''TOP'' 100 100 30, boxAt ''BOTTOM'' 100 500 30]"

text \<open>A tall box, a short box inside its extent, and a tall box that starts inside the short one.\<close>

definition nestedBoxes :: "OCRBox list" where
  "nestedBoxes = [\<lparr> b_text = ascii ''TITLE'', b_x = 100, b_y = 0, b_width = 80, b_height = 100, b_fontSize = None \<rparr>,
                  \<lparr> b_text = ascii ''A'', b_x = 200, b_y = 60, b_width = 80, b_height = 20, b_fontSize = None \<rparr>,
                  \<lparr> b_text = ascii ''B'', b_x = 300, b_y = 70, b_width = 80, b_height = 100, b_fontSize = None \<rparr>]"

section \<open>Properties of the job store\<close>

lemma updateJob_other: "other \<noteq> ident \<Longrightarrow> updateJob now other u jobs ident = jobs ident"
  by (simp add: updateJob_def split: option.splits)

lemma updateJob_unknown: "jobs ident = None \<Longrightarrow> updateJob now ident u jobs = jobs"
  by (simp add: updateJob_def)

lemma updateJob_same:
  "jobs ident = Some job \<Longrightarrow> updateJob now ident u jobs ident = Some ((assign job u) \<lparr> updatedAt := now \<rparr>)"
  by (simp add: updateJob_def)

lemma updateJob_terminal:
  assumes "jobs ident = Some job" and "is_terminal (status job)"
    and "u_status u = None \<or> u_status u = Some Completed \<or> u_status u = Some Failed"
  shows "\<exists>job'. updateJob now other u jobs ident = Some job' \<and> is_terminal (status job')"
proof (cases "other = ident")
  case True
  have "is_terminal (status ((assign job u) \<lparr> updatedAt := now \<rparr>))"
    using assms(2,3) by (auto simp: assign_def orElse_def is_terminal_def)
  with True assms(1) show ?thesis by (simp add: updateJob_same)
next
  case False
  with assms(1,2) show ?thesis by (simp add: updateJob_other)
qed

text \<open>
  C3 (as the code has it). \<open>updateJob\<close> has no guard on the current status. A job in a
  terminal state stays in a terminal state under every update whose fields carry no status
  or a terminal one, so under \<open>setJobCompleted\<close>, \<open>setJobFailed\<close> and \<open>updateProgress\<close> on
  any id; but \<open>setJobCompleted\<close> after \<open>setJobFailed\<close> on the same id is not a no-op: the
  status becomes \<open>completed\<close>.
\<close>

theorem terminal_stays_terminal:
  assumes "jobs ident = Some job" and "is_terminal (status job)"
  shows "(u_status u = None \<or> u_status u = Some Completed \<or> u_status u = Some Failed \<longrightarrow>
            (\<exists>job'. updateJob now other u jobs ident = Some job' \<and> is_terminal (status job')))
       \<and> (\<exists>job'. setJobCompleted now other out prev st jobs ident = Some job' \<and> is_terminal (status job'))
       \<and> (\<exists>job'. setJobFailed now other err jobs ident = Some job' \<and> is_terminal (status job'))
       \<and> (\<exists>job'. updateProgress now other p jobs ident = Some job' \<and> is_terminal (status job'))
       \<and> map_option status (setJobCompleted now ident out prev st (setJobFailed now0 ident err jobs) ident)
            = Some Completed"
proof (intro conjI impI)
  assume "u_status u = None \<or> u_status u = Some Completed \<or> u_status u = Some Failed"
  then show "\<exists>job'. updateJob now other u jobs ident = Some job' \<and> is_terminal (status job')"
    by (rule updateJob_terminal [where jobs = jobs and ident = ident, OF assms])
next
  show "\<exists>job'. setJobCompleted now other out prev st jobs ident = Some job' \<and> is_terminal (status job')"
    unfolding setJobCompleted_def by (rule updateJob_terminal [where jobs = jobs and ident = ident, OF assms]) (simp add: no_updates_def)
next
  show "\<exists>job'. setJobFailed now other err jobs ident = Some job' \<and> is_terminal (status job')"
    unfolding setJobFailed_def by (rule updateJob_terminal [where jobs = jobs and ident = ident, OF assms]) (simp add: no_updates_def)
next
  show "\<exists>job'. updateProgress now other p jobs ident = Some job' \<and> is_terminal (status job')"
    unfolding updateProgress_def by (rule updateJob_terminal [where jobs = jobs and ident = ident, OF assms]) (simp add: no_updates_def)
next
  show "map_option status (setJobCompleted now ident out prev st (setJobFailed now0 ident err jobs) ident)
          = Some Completed"
    using assms(1)
    by (simp add: setJobCompleted_def setJobFailed_def updateJob_def assign_def orElse_def no_updates_def)
qed

theorem terminal_stays_terminal_witness:
  "store0 ''job_1'' = Some job0
   \<and> is_terminal (status (job0 \<lparr> status := Failed \<rparr>))
   \<and> (\<exists>job'. updateProgress 300 ''job_1'' 55 (store0(''job_1'' \<mapsto> job0 \<lparr> status := Failed \<rparr>)) ''job_1'' = Some job'
         \<and> is_terminal (status job'))
   \<and> map_option status (setJobCompleted 300 ''job_1'' ''out.mp4'' None None
        (setJobFailed 200 ''job_1'' ''boom'' (store0(''job_1'' \<mapsto> job0 \<lparr> status := Failed \<rparr>))) ''job_1'')
        = Some Completed"
proof -
  let ?jobs = "store0(''job_1'' \<mapsto> job0 \<lparr> status := Failed \<rparr>)"
  have h1: "?jobs ''job_1'' = Some (job0 \<lparr> status := Failed \<rparr>)" by simp
  have h2: "is_terminal (status (job0 \<lparr> status := Failed \<rparr>))" by (simp add: is_terminal_def)
  have h0: "store0 ''job_1'' = Some job0" by (simp add: store0_def)
  from terminal_stays_terminal [where jobs = ?jobs and ident = "''job_1''" and other = "''job_1''"
      and now = 300 and now0 = 200 and p = 55 and out = "''out.mp4''" and prev = None and st = None
      and err = "''boom''", OF h1 h2]
  show ?thesis using h0 h2 by blast
qed

text \<open>
  C3 as the specification states it fails: after \<open>setJobFailed\<close>, \<open>setJobCompleted\<close> on
  the same id changes the store and leaves the status \<open>completed\<close>, and
  \<open>setJobProcessing\<close> takes the failed job back to \<open>processing\<close>.
\<close>

theorem markCompleted_after_markFailed_counterexample:
  "map_option status (setJobFailed 200 ''job_1'' ''boom'' store0 ''job_1'') = Some Failed
   \<and> map_option status
        (setJobCompleted 300 ''job_1'' ''out.mp4'' None None (setJobFailed 200 ''job_1'' ''boom'' store0) ''job_1'')
       \<noteq> Some Failed
   \<and> setJobCompleted 300 ''job_1'' ''out.mp4'' None None (setJobFailed 200 ''job_1'' ''boom'' store0)
       \<noteq> setJobFailed 200 ''job_1'' ''boom'' store0
   \<and> map_option status (setJobProcessing 300 ''job_1'' (setJobFailed 200 ''job_1'' ''boom'' store0) ''job_1'')
       = Some Processing"
proof -
  let ?failed = "setJobFailed 200 ''job_1'' ''boom'' store0"
  let ?done = "setJobCompleted 300 ''job_1'' ''out.mp4'' None None ?failed"
  have a: "map_option status (?failed ''job_1'') = Some Failed"
    by (simp add: setJobFailed_def updateJob_def store0_def assign_def orElse_def no_updates_def)
  have b: "map_option status (?done ''job_1'') = Some Completed"
    by (simp add: setJobCompleted_def setJobFailed_def updateJob_def store0_def assign_def orElse_def no_updates_def)
  have c: "map_option status (setJobProcessing 300 ''job_1'' ?failed ''job_1'') = Some Processing"
    by (simp add: setJobProcessing_def setJobFailed_def updateJob_def store0_def assign_def orElse_def no_updates_def)
  from a b have "?done \<noteq> ?failed" by (metis JobStatus.distinct(11) option.inject)
  with a b c show ?thesis by auto
qed

lemma MemoryDatabase_updateJob_updatedAt:
  assumes "jobs ident = Some job" and "u_updatedAt u = None"
  shows "map_option updatedAt (MemoryDatabase_updateJob ident u jobs ident) = Some (updatedAt job)"
  using assms by (simp add: MemoryDatabase_updateJob_def assign_def orElse_def)

lemma updateJob_updatedAt:
  assumes "jobs ident = Some job"
  shows "map_option updatedAt (updateJob now ident u jobs ident) = Some now"
  using assms by (simp add: updateJob_def)

lemma MemoryDatabase_updateJob_unknown: "jobs ident = None \<Longrightarrow> MemoryDatabase_updateJob ident u jobs = jobs"
  by (simp add: MemoryDatabase_updateJob_def)


text \<open>
  C9. \<open>JobManager.updateJob\<close> merges the fields, sets \<open>updatedAt\<close> to the clock and leaves
  the store alone for an unknown id, and so do the Postgres and SQLite providers.
  \<open>MemoryDatabase.updateJob\<close>, the default provider, merges the fields only: after an
  update of \<open>progress\<close> at time 200 the job still carries the \<open>updatedAt\<close> of its creation,
  where \<open>JobManager.updateJob\<close> on the same input carries 200.
\<close>

theorem MemoryDatabase_updateJob_stale_updatedAt:
  "map_option progress (MemoryDatabase_updateJob ''job_1'' (no_updates \<lparr> u_progress := Some 50 \<rparr>) store0 ''job_1'')
     = Some 50
   \<and> map_option updatedAt (MemoryDatabase_updateJob ''job_1'' (no_updates \<lparr> u_progress := Some 50 \<rparr>) store0 ''job_1'')
     = Some 100
   \<and> map_option updatedAt (updateJob 200 ''job_1'' (no_updates \<lparr> u_progress := Some 50 \<rparr>) store0 ''job_1'')
     = Some 200"
  by (simp add: MemoryDatabase_updateJob_def updateJob_def store0_def job0_def assign_def orElse_def no_updates_def)

section \<open>Properties of the composer\<close>

text \<open>
  \<open>hexToAss\<close> on its own: six digits after the hash sign give an opaque colour, eight
  digits carry their alpha, and an input that fails the test resolves as a missing input
  does, to the colour of the default, provided the default is itself hexadecimal.
\<close>

lemma hex_not_space: "is_hex_digit c \<Longrightarrow> \<not> is_space c"
  unfolding is_hex_digit_def is_space_def by (auto simp: word_le_nat_alt)

lemma hex_not_hash: "is_hex_digit c \<Longrightarrow> c \<noteq> 0x23"
  unfolding is_hex_digit_def by (auto simp: word_le_nat_alt)

lemma trim_no_space:
  assumes "list_all (\<lambda>c. \<not> is_space c) h"
  shows "trim h = h"
proof (cases h rule: rev_cases)
  case Nil
  then show ?thesis by (simp add: trim_def)
next
  case (snoc ys y)
  from assms have a: "\<forall>c \<in> set h. \<not> is_space c" by (simp add: list_all_iff)
  have "dropWhile is_space h = h"
    using a by (cases h) auto
  moreover have "dropWhile is_space (rev h) = rev h"
    using a snoc by simp
  ultimately show ?thesis by (simp add: trim_def)
qed

lemma trim_hex: "list_all is_hex_digit h \<Longrightarrow> trim h = h"
  by (rule trim_no_space) (auto simp: list_all_iff dest: hex_not_space)

lemma strip_hash_hex: "list_all is_hex_digit h \<Longrightarrow> strip_hash h = h"
  by (cases h) (auto simp: strip_hash_def dest: hex_not_hash)

lemma hexToAss_rgb:
  assumes "length h = 6" and "list_all is_hex_digit h"
  shows "hexToAss (Some (0x23 # h)) d = ascii ''&H00'' @ slice 4 6 h @ slice 2 4 h @ slice 0 2 h"
proof -
  have j: "js_or (Some (0x23 # h)) x = 0x23 # h" for x by (simp add: js_or_def)
  have s: "strip_hash (0x23 # h) = h" by (simp add: strip_hash_def)
  from assms have ok: "hex_ok h" by (simp add: hex_ok_def)
  show ?thesis
    using assms(1) ok by (simp add: hexToAss_def j s trim_hex [OF assms(2)] Let_def)
qed

lemma hexToAss_rgba:
  assumes "length h = 8" and "list_all is_hex_digit h"
  shows "hexToAss (Some (0x23 # h)) d = ascii ''&H'' @ slice 6 8 h @ slice 4 6 h @ slice 2 4 h @ slice 0 2 h"
proof -
  have j: "js_or (Some (0x23 # h)) x = 0x23 # h" for x by (simp add: js_or_def)
  have s: "strip_hash (0x23 # h) = h" by (simp add: strip_hash_def)
  from assms have ok: "hex_ok h" by (simp add: hex_ok_def)
  show ?thesis
    using assms(1) ok by (simp add: hexToAss_def j s trim_hex [OF assms(2)] Let_def)
qed

lemma hexToAss_valid:
  assumes "s \<noteq> []" and "hex_ok (trim (strip_hash s))"
  shows "hexToAss (Some s) d = assOf (trim (strip_hash s))"
proof -
  from assms(1) have j: "js_or (Some s) x = s" for x by (cases s) (simp_all add: js_or_def)
  show ?thesis using assms(2) by (simp add: hexToAss_def j assOf_def Let_def)
qed

lemma hexToAss_fallback:
  assumes "s \<noteq> []" and "\<not> hex_ok (trim (strip_hash s))" and "hex_ok (strip_hash dh)"
  shows "hexToAss (Some s) (Some dh) = assOf (strip_hash dh)"
proof -
  from assms(1) have j: "js_or (Some s) x = s" for x by (cases s) (simp_all add: js_or_def)
  from assms(3) have "dh \<noteq> []" by (auto simp: hex_ok_def strip_hash_def)
  then have j2: "js_or (Some dh) x = dh" for x by (cases dh) (simp_all add: js_or_def)
  show ?thesis using assms(2) by (simp add: hexToAss_def j j2 assOf_def Let_def)
qed

lemma hexToAss_missing:
  assumes "hex_ok (strip_hash dh)"
  shows "hexToAss None (Some dh) = assOf (strip_hash dh)" and "hexToAss (Some []) (Some dh) = assOf (strip_hash dh)"
proof -
  from assms have "dh \<noteq> []" by (auto simp: hex_ok_def strip_hash_def)
  then have j2: "js_or (Some dh) x = dh" for x by (cases dh) (simp_all add: js_or_def)
  from assms have "list_all is_hex_digit (strip_hash dh)" by (simp add: hex_ok_def)
  then have t: "trim (strip_hash dh) = strip_hash dh" by (rule trim_hex)
  have j0: "js_or None x = x" "js_or (Some []) x = x" for x by (simp_all add: js_or_def)
  show "hexToAss None (Some dh) = assOf (strip_hash dh)"
    using assms by (simp add: hexToAss_def j0 j2 t assOf_def Let_def)
  show "hexToAss (Some []) (Some dh) = assOf (strip_hash dh)"
    using assms by (simp add: hexToAss_def j0 j2 t assOf_def Let_def)
qed

text \<open>
  C8 (as the code has it). \<open>hexToAss\<close> removes one leading hash sign, if there is one, and
  the surrounding white space. Six hexadecimal digits then resolve to an opaque colour and
  eight to a colour carrying their alpha, so the forms \<open>#RRGGBB\<close> and \<open>#RRGGBBAA\<close> do;
  every other non-empty input, and a missing or empty input, resolves to the colour of the
  default, when the default is itself six or eight hexadecimal digits. The function is
  total: no input raises an error. \<open>#00000066\<close> resolves to \<open>&H66000000\<close>, and
  \<open>notacolor\<close> with the default \<open>FFFFFF\<close> to \<open>&H00FFFFFF\<close>.
\<close>

theorem hexToAss_resolution:
  "(s \<noteq> [] \<and> hex_ok (trim (strip_hash s)) \<longrightarrow> hexToAss (Some s) d = assOf (trim (strip_hash s)))
   \<and> (s \<noteq> [] \<and> \<not> hex_ok (trim (strip_hash s)) \<and> hex_ok (strip_hash dh)
        \<longrightarrow> hexToAss (Some s) (Some dh) = assOf (strip_hash dh))
   \<and> (hex_ok (strip_hash dh)
        \<longrightarrow> hexToAss None (Some dh) = assOf (strip_hash dh) \<and> hexToAss (Some []) (Some dh) = assOf (strip_hash dh))
   \<and> (length h = 6 \<and> list_all is_hex_digit h
        \<longrightarrow> hexToAss (Some (0x23 # h)) d = ascii ''&H00'' @ slice 4 6 h @ slice 2 4 h @ slice 0 2 h)
   \<and> (length h = 8 \<and> list_all is_hex_digit h
        \<longrightarrow> hexToAss (Some (0x23 # h)) d = ascii ''&H'' @ slice 6 8 h @ slice 4 6 h @ slice 2 4 h @ slice 0 2 h)
   \<and> hexToAss (Some (ascii ''#00000066'')) d = ascii ''&H66000000''
   \<and> hexToAss (Some (ascii ''notacolor'')) (Some (ascii ''FFFFFF'')) = ascii ''&H00FFFFFF''"
proof -
  have ok: "hex_ok (trim (strip_hash (ascii ''#00000066'')))" by code_simp
  have ne: "ascii ''#00000066'' \<noteq> []" by (simp add: ascii_def)
  have v: "assOf (trim (strip_hash (ascii ''#00000066''))) = ascii ''&H66000000''" by code_simp
  have a: "hexToAss (Some (ascii ''#00000066'')) d = ascii ''&H66000000''"
    using hexToAss_valid [OF ne ok, of d] v by simp
  have b: "hexToAss (Some (ascii ''notacolor'')) (Some (ascii ''FFFFFF'')) = ascii ''&H00FFFFFF''"
    by code_simp
  from a b show ?thesis
    by (simp add: hexToAss_valid hexToAss_fallback hexToAss_missing hexToAss_rgb hexToAss_rgba)
qed

theorem hexToAss_resolution_witness:
  "ascii ''#FF8000'' \<noteq> [] \<and> hex_ok (trim (strip_hash (ascii ''#FF8000'')))
   \<and> hexToAss (Some (ascii ''#FF8000'')) None = ascii ''&H000080FF''
   \<and> ascii ''notacolor'' \<noteq> [] \<and> \<not> hex_ok (trim (strip_hash (ascii ''notacolor'')))
   \<and> hex_ok (strip_hash (ascii ''00000080''))
   \<and> hexToAss (Some (ascii ''notacolor'')) (Some (ascii ''00000080'')) = ascii ''&H80000000''
   \<and> hexToAss None (Some (ascii ''00000080'')) = ascii ''&H80000000''"
proof -
  have h1: "ascii ''#FF8000'' \<noteq> []" "ascii ''notacolor'' \<noteq> []" by (simp_all add: ascii_def)
  have h2: "hex_ok (trim (strip_hash (ascii ''#FF8000'')))" by code_simp
  have h3: "\<not> hex_ok (trim (strip_hash (ascii ''notacolor'')))" by code_simp
  have h4: "hex_ok (strip_hash (ascii ''00000080''))" by code_simp
  have v1: "assOf (trim (strip_hash (ascii ''#FF8000''))) = ascii ''&H000080FF''" by code_simp
  have v2: "assOf (strip_hash (ascii ''00000080'')) = ascii ''&H80000000''" by code_simp
  from hexToAss_resolution [of "ascii ''#FF8000''" None "ascii ''00000080''"] h1 h2
  have a: "hexToAss (Some (ascii ''#FF8000'')) None = assOf (trim (strip_hash (ascii ''#FF8000'')))"
    by blast
  from hexToAss_resolution [of "ascii ''notacolor''" None "ascii ''00000080''"] h1 h3 h4
  have b: "hexToAss (Some (ascii ''notacolor'')) (Some (ascii ''00000080'')) = assOf (strip_hash (ascii ''00000080''))"
    and c: "hexToAss None (Some (ascii ''00000080'')) = assOf (strip_hash (ascii ''00000080''))"
    by blast+
  from h1 h2 h3 h4 a b c v1 v2 show ?thesis by simp
qed

text \<open>
  C8 as the specification states it fails: \<open>FF0000\<close> has no hash sign and so neither of
  the two forms, with or without a space after it; both inputs resolve to red, not to
  the default colour.
\<close>

theorem hash_optional_counterexample:
  "hexToAss (Some (ascii ''FF0000'')) (Some (ascii ''FFFFFF'')) = ascii ''&H000000FF''
   \<and> hexToAss (Some (ascii ''FF0000 '')) (Some (ascii ''FFFFFF'')) = ascii ''&H000000FF''
   \<and> hexToAss None (Some (ascii ''FFFFFF'')) = ascii ''&H00FFFFFF''
   \<and> hexToAss (Some (ascii ''FF0000'')) (Some (ascii ''FFFFFF'')) \<noteq> hexToAss None (Some (ascii ''FFFFFF''))"
  by code_simp

text \<open>
  The colours of a job. \<open>overlaySubtitlesBottomCenter\<close> passes the already converted
  module constants \<open>SUB_TEXT_ASS\<close> and \<open>SUB_BG_ASS\<close> as the default of \<open>hexToAss\<close>. They
  are not hexadecimal, so they fail its test and are sliced as if they were eight digits:
  with the environment unset, an invalid or missing text colour gives \<open>&HFFFF00&H\<close> and an
  invalid or missing background colour \<open>&H000080&H\<close>.
\<close>

lemma overlay_colour_defaults:
  "SUB_TEXT_ASS env_unset = ascii ''&H00FFFFFF''
   \<and> SUB_BG_ASS env_unset = ascii ''&H80000000''
   \<and> backAss env_unset (no_options \<lparr> bgColorHex := Some (ascii ''#00000066'') \<rparr>) = ascii ''&H66000000''
   \<and> textAss env_unset (no_options \<lparr> textColorHex := Some (ascii ''notacolor'') \<rparr>) = ascii ''&HFFFF00&H''
   \<and> textAss env_unset no_options = ascii ''&HFFFF00&H''
   \<and> backAss env_unset (no_options \<lparr> bgColorHex := Some (ascii ''notacolor'') \<rparr>) = ascii ''&H000080&H''
   \<and> backAss env_unset no_options = ascii ''&H000080&H''"
  by code_simp

lemma ceiling_half: "nat \<lceil>of_nat n / (2 :: rat)\<rceil> = (n + 1) div 2"
proof -
  have "\<lceil>of_nat n / (2 :: rat)\<rceil> = (int n + 1) div 2"
  proof (rule ceiling_unique)
    have "2 * ((int n + 1) div 2) \<le> int n + 1" by simp
    moreover have "int n < 2 * ((int n + 1) div 2) + 1 " by presburger
    ultimately have a: "2 * ((int n + 1) div 2) - 2 < int n" and b: "int n \<le> 2 * ((int n + 1) div 2)"
      by linarith+
    from a have "(of_int (2 * ((int n + 1) div 2) - 2) :: rat) < of_int (int n)"
      by (simp only: of_int_less_iff)
    then show "of_int ((int n + 1) div 2) - 1 < (of_nat n :: rat) / 2" by simp
    from b have "(of_int (int n) :: rat) \<le> of_int (2 * ((int n + 1) div 2))"
      by (simp only: of_int_le_iff)
    then show "(of_nat n :: rat) / 2 \<le> of_int ((int n + 1) div 2)" by simp
  qed
  then show ?thesis by (simp add: nat_div_distrib nat_add_distrib)
qed

lemma decide_frameNumber: "df_frameNumber (decide l pf) = df_frameNumber pf"
  by (simp add: decide_def Let_def)

lemma decide_empty_iff: "df_text (decide l pf) = [] \<longleftrightarrow> df_text pf = []"
  by (simp add: decide_def Let_def)

lemma decide_cjk:
  "df_text pf \<noteq> [] \<Longrightarrow> \<not> l_forceOneLine l \<Longrightarrow> maxWidth l < estWidth l (df_text pf) \<Longrightarrow>
   isCJK (df_text pf) \<Longrightarrow>
   df_text (decide l pf) = take ((length (df_text pf) + 1) div 2) (df_text pf) @ [0x0A]
                           @ drop ((length (df_text pf) + 1) div 2) (df_text pf)"
  by (simp add: decide_def Let_def ceiling_half)

lemma decide_latin:
  "df_text pf \<noteq> [] \<Longrightarrow> \<not> l_forceOneLine l \<Longrightarrow> maxWidth l < estWidth l (df_text pf) \<Longrightarrow>
   \<not> isCJK (df_text pf) \<Longrightarrow>
   df_text (decide l pf) =
     join (ascii '' '') (take ((length (split_ws (df_text pf)) + 1) div 2) (split_ws (df_text pf))) @ [0x0A]
     @ join (ascii '' '') (drop ((length (split_ws (df_text pf)) + 1) div 2) (split_ws (df_text pf)))"
  by (simp add: decide_def Let_def ceiling_half)

lemma decide_same:
  "df_text pf = [] \<or> l_forceOneLine l \<or> estWidth l (df_text pf) \<le> maxWidth l \<Longrightarrow>
   df_text (decide l pf) = df_text pf"
  by (auto simp: decide_def Let_def)

lemma overlay_single:
  "overlaySubtitlesBottomCenter l [frame] =
     (if df_text (perFrame frame) = [] then []
      else [\<lparr> ev_start = assTime (of_int (tf_frameNumber frame) - 1),
              ev_end = assTime (of_int (tf_frameNumber frame)),
              ev_fontSize = l_baseFontSize l,
              ev_text = escAss (df_text (decide l (perFrame frame))) \<rparr>])"
proof -
  have n: "df_frameNumber (decide l (perFrame frame)) = tf_frameNumber frame"
    by (simp add: decide_frameNumber perFrame_def)
  show ?thesis
    by (simp add: overlaySubtitlesBottomCenter_def emitEvents_def mergeFrameTexts_def Let_def
        decide_empty_iff n)
qed

text \<open>
  C5 (as the code has it). \<open>overlaySubtitlesBottomCenter\<close> never changes the font size:
  every event carries the base font size. The phrase of a frame is measured once. When
  it is not empty, one line is not forced and its estimated width exceeds the available
  width, it is split once: a CJK phrase of \<open>n\<close> code units into its first \<open>(n + 1) div 2\<close>
  code units (the ceiling of \<open>n / 2\<close>) and the rest, any other phrase of \<open>n\<close> words into
  its first \<open>(n + 1) div 2\<close> words and the rest, each half joined with single spaces; the
  two halves are joined by a line feed. In every other case the phrase is left as it is.
  The halves are not measured again: the event of a frame is its phrase after this one
  decision, escaped, at the base font size.
\<close>

theorem events_carry_base_font_size:
  "(\<forall>ev \<in> set (overlaySubtitlesBottomCenter l frames). ev_fontSize ev = l_baseFontSize l)
   \<and> df_frameNumber (decide l pf) = df_frameNumber pf
   \<and> (df_text pf \<noteq> [] \<and> \<not> l_forceOneLine l \<and> maxWidth l < estWidth l (df_text pf) \<and> isCJK (df_text pf)
        \<longrightarrow> df_text (decide l pf) =
              take ((length (df_text pf) + 1) div 2) (df_text pf) @ [0x0A]
              @ drop ((length (df_text pf) + 1) div 2) (df_text pf))
   \<and> (df_text pf \<noteq> [] \<and> \<not> l_forceOneLine l \<and> maxWidth l < estWidth l (df_text pf) \<and> \<not> isCJK (df_text pf)
        \<longrightarrow> df_text (decide l pf) =
              join (ascii '' '') (take ((length (split_ws (df_text pf)) + 1) div 2) (split_ws (df_text pf)))
              @ [0x0A]
              @ join (ascii '' '') (drop ((length (split_ws (df_text pf)) + 1) div 2) (split_ws (df_text pf))))
   \<and> (df_text pf = [] \<or> l_forceOneLine l \<or> estWidth l (df_text pf) \<le> maxWidth l
        \<longrightarrow> df_text (decide l pf) = df_text pf)
   \<and> overlaySubtitlesBottomCenter l [frame] =
       (if df_text (perFrame frame) = [] then []
        else [\<lparr> ev_start = assTime (of_int (tf_frameNumber frame) - 1),
                ev_end = assTime (of_int (tf_frameNumber frame)),
                ev_fontSize = l_baseFontSize l,
                ev_text = escAss (df_text (decide l (perFrame frame))) \<rparr>])"
proof -
  have a: "\<forall>ev \<in> set (overlaySubtitlesBottomCenter l frames). ev_fontSize ev = l_baseFontSize l"
    by (auto simp: overlaySubtitlesBottomCenter_def emitEvents_def)
  note b = decide_frameNumber [of l pf]
  have c: "df_text pf \<noteq> [] \<and> \<not> l_forceOneLine l \<and> maxWidth l < estWidth l (df_text pf) \<and> isCJK (df_text pf)
        \<longrightarrow> df_text (decide l pf) =
              take ((length (df_text pf) + 1) div 2) (df_text pf) @ [0x0A]
              @ drop ((length (df_text pf) + 1) div 2) (df_text pf)"
    using decide_cjk [of pf l] by blast
  have d: "df_text pf \<noteq> [] \<and> \<not> l_forceOneLine l \<and> maxWidth l < estWidth l (df_text pf) \<and> \<not> isCJK (df_text pf)
        \<longrightarrow> df_text (decide l pf) =
              join (ascii '' '') (take ((length (split_ws (df_text pf)) + 1) div 2) (split_ws (df_text pf)))
              @ [0x0A]
              @ join (ascii '' '') (drop ((length (split_ws (df_text pf)) + 1) div 2) (split_ws (df_text pf)))"
    using decide_latin [of pf l] by blast
  have e: "df_text pf = [] \<or> l_forceOneLine l \<or> estWidth l (df_text pf) \<le> maxWidth l
        \<longrightarrow> df_text (decide l pf) = df_text pf"
    using decide_same [of pf l] by blast
  note f = overlay_single [of l frame]
  from a b c d e f show ?thesis by (intro conjI)
qed

theorem events_carry_base_font_size_witness:
  "df_text (perFrame (hd widePhraseFrames)) = ascii ''TRANSLATION UNAVAILABLE''
   \<and> \<not> l_forceOneLine narrowLayout
   \<and> maxWidth narrowLayout < estWidth narrowLayout (ascii ''TRANSLATION UNAVAILABLE'')
   \<and> \<not> isCJK (ascii ''TRANSLATION UNAVAILABLE'')
   \<and> df_text (decide narrowLayout (perFrame (hd widePhraseFrames)))
       = ascii ''TRANSLATION'' @ [0x0A] @ ascii ''UNAVAILABLE''
   \<and> isCJK [0x5B57, 0x5E55, 0x7FFB, 0x8BD1, 0x4E0D, 0x53EF, 0x7528]
   \<and> maxWidth narrowLayout < estWidth narrowLayout [0x5B57, 0x5E55, 0x7FFB, 0x8BD1, 0x4E0D, 0x53EF, 0x7528]
   \<and> df_text (decide narrowLayout
        \<lparr> df_frameNumber = 1, df_text = [0x5B57, 0x5E55, 0x7FFB, 0x8BD1, 0x4E0D, 0x53EF, 0x7528] \<rparr>)
       = [0x5B57, 0x5E55, 0x7FFB, 0x8BD1, 0x0A, 0x4E0D, 0x53EF, 0x7528]
   \<and> estWidth defaultLayout (ascii ''TRANSLATION UNAVAILABLE'') \<le> maxWidth defaultLayout
   \<and> df_text (decide defaultLayout (perFrame (hd widePhraseFrames))) = ascii ''TRANSLATION UNAVAILABLE''
   \<and> \<lparr> ev_start = 0, ev_end = 100, ev_fontSize = 44,
       ev_text = ascii ''TRANSLATION'' @ [0x5C, 0x4E] @ ascii ''UNAVAILABLE'' \<rparr>
     \<in> set (overlaySubtitlesBottomCenter narrowLayout widePhraseFrames)
   \<and> ev_fontSize \<lparr> ev_start = 0, ev_end = 100, ev_fontSize = 44,
       ev_text = ascii ''TRANSLATION'' @ [0x5C, 0x4E] @ ascii ''UNAVAILABLE'' \<rparr> = l_baseFontSize narrowLayout"
proof -
  let ?pf = "perFrame (hd widePhraseFrames)"
  let ?cjk = "[0x5B57, 0x5E55, 0x7FFB, 0x8BD1, 0x4E0D, 0x53EF, 0x7528] :: ustring"
  let ?pc = "\<lparr> df_frameNumber = 1, df_text = ?cjk \<rparr>"
  have t: "df_text ?pf = ascii ''TRANSLATION UNAVAILABLE''" by code_simp
  have h1: "df_text ?pf \<noteq> []" by code_simp
  have h2: "\<not> l_forceOneLine narrowLayout" by code_simp
  have h3: "maxWidth narrowLayout < estWidth narrowLayout (df_text ?pf)" by code_simp
  have h4: "\<not> isCJK (df_text ?pf)" by code_simp
  have v: "join (ascii '' '') (take ((length (split_ws (df_text ?pf)) + 1) div 2) (split_ws (df_text ?pf)))
              @ [0x0A]
              @ join (ascii '' '') (drop ((length (split_ws (df_text ?pf)) + 1) div 2) (split_ws (df_text ?pf)))
           = ascii ''TRANSLATION'' @ [0x0A] @ ascii ''UNAVAILABLE''"
    by code_simp
  have k1: "df_text ?pc \<noteq> []" by simp
  have k3: "maxWidth narrowLayout < estWidth narrowLayout (df_text ?pc)" by code_simp
  have k4: "isCJK (df_text ?pc)" by code_simp
  have w: "take ((length (df_text ?pc) + 1) div 2) (df_text ?pc) @ [0x0A]
              @ drop ((length (df_text ?pc) + 1) div 2) (df_text ?pc)
           = [0x5B57, 0x5E55, 0x7FFB, 0x8BD1, 0x0A, 0x4E0D, 0x53EF, 0x7528]"
    by code_simp
  have g: "estWidth defaultLayout (df_text ?pf) \<le> maxWidth defaultLayout" by code_simp
  have m: "\<lparr> ev_start = 0, ev_end = 100, ev_fontSize = 44,
       ev_text = ascii ''TRANSLATION'' @ [0x5C, 0x4E] @ ascii ''UNAVAILABLE'' \<rparr>
     \<in> set (overlaySubtitlesBottomCenter narrowLayout widePhraseFrames)"
    by code_simp
  from events_carry_base_font_size [of narrowLayout widePhraseFrames ?pf] h1 h2 h3 h4 m
  have r1: "df_text (decide narrowLayout ?pf) =
              join (ascii '' '') (take ((length (split_ws (df_text ?pf)) + 1) div 2) (split_ws (df_text ?pf)))
              @ [0x0A]
              @ join (ascii '' '') (drop ((length (split_ws (df_text ?pf)) + 1) div 2) (split_ws (df_text ?pf)))"
    and r2: "ev_fontSize \<lparr> ev_start = 0, ev_end = 100, ev_fontSize = 44,
       ev_text = ascii ''TRANSLATION'' @ [0x5C, 0x4E] @ ascii ''UNAVAILABLE'' \<rparr> = l_baseFontSize narrowLayout"
    by blast+
  from events_carry_base_font_size [of narrowLayout widePhraseFrames ?pc] k1 h2 k3 k4
  have r3: "df_text (decide narrowLayout ?pc) =
              take ((length (df_text ?pc) + 1) div 2) (df_text ?pc) @ [0x0A]
              @ drop ((length (df_text ?pc) + 1) div 2) (df_text ?pc)"
    by blast
  from events_carry_base_font_size [of defaultLayout widePhraseFrames ?pf] g
  have r4: "df_text (decide defaultLayout ?pf) = df_text ?pf"
    by blast
  have c1: "df_text (decide narrowLayout ?pf) = ascii ''TRANSLATION'' @ [0x0A] @ ascii ''UNAVAILABLE''"
    using r1 v by (rule trans)
  have c3: "df_text (decide narrowLayout ?pc) = [0x5B57, 0x5E55, 0x7FFB, 0x8BD1, 0x0A, 0x4E0D, 0x53EF, 0x7528]"
    using r3 w by (rule trans)
  have c4: "df_text (decide defaultLayout ?pf) = ascii ''TRANSLATION UNAVAILABLE''"
    using r4 t by (rule trans)
  have h3': "maxWidth narrowLayout < estWidth narrowLayout (ascii ''TRANSLATION UNAVAILABLE'')"
    using h3 by (simp only: t)
  have h4': "\<not> isCJK (ascii ''TRANSLATION UNAVAILABLE'')" using h4 by (simp only: t not_False_eq_True)
  have g': "estWidth defaultLayout (ascii ''TRANSLATION UNAVAILABLE'') \<le> maxWidth defaultLayout"
    using g by (simp only: t)
  have k3': "maxWidth narrowLayout < estWidth narrowLayout ?cjk" using k3 by simp
  have k4': "isCJK ?cjk" using k4 by simp
  from t h2 h3' h4' c1 k4' k3' c3 g' c4 m r2 show ?thesis by (intro conjI)
qed

text \<open>
  C5 as the specification states it fails. On a video of width 320 the available width
  is 268; each half of the phrase has 11 letters and an estimated width of
  \<open>11 * 0.62 * 44\<close>, more than 268, so the specification asks for a font shrunk to
  \<open>268 / (11 * 0.62)\<close>, less than 40. The event carries the base font size 44.
\<close>

theorem font_not_shrunk_counterexample:
  "overlaySubtitlesBottomCenter narrowLayout widePhraseFrames =
     [\<lparr> ev_start = 0, ev_end = 100, ev_fontSize = 44,
        ev_text = ascii ''TRANSLATION'' @ [0x5C, 0x4E] @ ascii ''UNAVAILABLE'' \<rparr>]
   \<and> maxWidth narrowLayout = 268
   \<and> estWidth narrowLayout (ascii ''TRANSLATION'') > maxWidth narrowLayout
   \<and> estWidth narrowLayout (ascii ''UNAVAILABLE'') > maxWidth narrowLayout
   \<and> maxWidth narrowLayout / (11 * l_latinFactor narrowLayout) < 40
   \<and> l_baseFontSize narrowLayout = 44"
  by code_simp

section \<open>Properties of the pipeline\<close>

text \<open>
  C6 (as the code has it). With the default filter configuration the line \<open>HELLO\<close> does
  not survive the per-frame pass: it has 5 characters and 1 word, and the defaults ask
  for 6 characters and 2 words; no event is produced. With the minimums lowered to 5
  characters and 1 word, or with the line \<open>HELLO WORLD\<close> under the default
  configuration, the pipeline produces exactly one event, \<open>BONJOUR\<close>, from 0.00s to 2.00s.
\<close>

theorem hello_scenario:
  "charCount (ascii ''HELLO'') = 5 \<and> wordCount (ascii ''HELLO'') = 1
   \<and> minChars filter_env_unset = 6 \<and> minWords filter_env_unset = 2
   \<and> translateVideoAss (filter_env_unset \<lparr> SUBTITLE_MIN_CHARS := Some 5, SUBTITLE_MIN_WORDS := Some 1 \<rparr>)
        None helloMap defaultLayout helloFrames
      = Inr [\<lparr> ev_start = 0, ev_end = 200, ev_fontSize = 44, ev_text = ascii ''BONJOUR'' \<rparr>]
   \<and> translateVideoAss filter_env_unset None helloWorldMap defaultLayout helloWorldFrames
      = Inr [\<lparr> ev_start = 0, ev_end = 200, ev_fontSize = 44, ev_text = ascii ''BONJOUR'' \<rparr>]"
  by code_simp

text \<open>
  C6 as the specification states it fails: the default configuration yields no event for
  the two frames with the box \<open>HELLO\<close>.
\<close>

theorem hello_scenario_default_counterexample:
  "filterSubtitleLike filter_env_unset (map groupTextsIntoLines helloFrames)
     = [\<lparr> gf_frameNumber = 1, gf_texts = [] \<rparr>, \<lparr> gf_frameNumber = 2, gf_texts = [] \<rparr>]
   \<and> translateVideoAss filter_env_unset None helloMap defaultLayout helloFrames = Inr []"
  by code_simp

section \<open>Properties of the timeline\<close>

lemma merge_loop_nonempty: "merge_loop fps events (Some c) fs \<noteq> []"
  by (induction fs arbitrary: events c) (auto simp: Let_def)

lemma merge_loop_snoc:
  "merge_loop fps events (Some c) (fs @ [f]) =
     (let es = merge_loop fps events (Some c) fs in
      if df_text f = me_text (last es)
      then butlast es @ [(last es) \<lparr> me_end := of_int (df_frameNumber f) / fps \<rparr>]
      else es @ [newEvent fps f])"
  by (induction fs arbitrary: events c) (auto simp: Let_def newEvent_def)

lemma mergeFrameTexts_single: "mergeFrameTexts [f] fps = [newEvent fps f]"
  by (simp add: mergeFrameTexts_def newEvent_def)

lemma mergeFrameTexts_snoc:
  assumes "frames \<noteq> []"
  shows "mergeFrameTexts (frames @ [f]) fps =
     (let es = mergeFrameTexts frames fps in
      if df_text f = me_text (last es)
      then butlast es @ [(last es) \<lparr> me_end := of_int (df_frameNumber f) / fps \<rparr>]
      else es @ [newEvent fps f])"
proof -
  from assms obtain g gs where fr: "frames = g # gs" by (cases frames) auto
  show ?thesis
    unfolding mergeFrameTexts_def fr
    using merge_loop_snoc [of fps "[]" "newEvent fps g" gs f]
    by (simp add: Let_def newEvent_def)
qed

lemma mergeFrameTexts_nonempty: "frames \<noteq> [] \<Longrightarrow> mergeFrameTexts frames fps \<noteq> []"
  by (cases frames) (auto simp: mergeFrameTexts_def Let_def merge_loop_nonempty)

text \<open>
  C2. The merge, one frame at a time: a single frame opens an event; a further frame
  whose text equals the text of the open (last) event moves that event's end to the
  frame's end, and any other text opens a new event after it. Hence three consecutive
  frames with one text give one event over the whole range, and the texts A, B, A give
  three events, each ending where the next starts; the emission loop turns each event
  with a non-empty text into one \<open>Dialogue\<close> line.
\<close>

theorem run_length_merge:
  "mergeFrameTexts [f] fps = [newEvent fps f]
   \<and> (frames \<noteq> [] \<longrightarrow> mergeFrameTexts (frames @ [f]) fps =
        (let es = mergeFrameTexts frames fps in
         if df_text f = me_text (last es)
         then butlast es @ [(last es) \<lparr> me_end := of_int (df_frameNumber f) / fps \<rparr>]
         else es @ [newEvent fps f]))
   \<and> mergeFrameTexts [\<lparr> df_frameNumber = n, df_text = t \<rparr>, \<lparr> df_frameNumber = n + 1, df_text = t \<rparr>,
                       \<lparr> df_frameNumber = n + 2, df_text = t \<rparr>] 1
       = [\<lparr> me_text = t, me_start = of_int n - 1, me_end = of_int n + 2 \<rparr>]
   \<and> (t \<noteq> [] \<longrightarrow>
        emitEvents l (mergeFrameTexts [\<lparr> df_frameNumber = n, df_text = t \<rparr>,
            \<lparr> df_frameNumber = n + 1, df_text = t \<rparr>, \<lparr> df_frameNumber = n + 2, df_text = t \<rparr>] 1)
        = [\<lparr> ev_start = assTime (of_int n - 1), ev_end = assTime (of_int n + 2),
              ev_fontSize = l_baseFontSize l, ev_text = escAss t \<rparr>])
   \<and> (A \<noteq> B \<longrightarrow>
        mergeFrameTexts [\<lparr> df_frameNumber = n, df_text = A \<rparr>, \<lparr> df_frameNumber = n + 1, df_text = B \<rparr>,
                         \<lparr> df_frameNumber = n + 2, df_text = A \<rparr>] 1
        = [\<lparr> me_text = A, me_start = of_int n - 1, me_end = of_int n \<rparr>,
           \<lparr> me_text = B, me_start = of_int n, me_end = of_int n + 1 \<rparr>,
           \<lparr> me_text = A, me_start = of_int n + 1, me_end = of_int n + 2 \<rparr>])
   \<and> (A \<noteq> B \<and> A \<noteq> [] \<and> B \<noteq> [] \<longrightarrow>
        emitEvents l (mergeFrameTexts [\<lparr> df_frameNumber = n, df_text = A \<rparr>,
            \<lparr> df_frameNumber = n + 1, df_text = B \<rparr>, \<lparr> df_frameNumber = n + 2, df_text = A \<rparr>] 1)
        = [\<lparr> ev_start = assTime (of_int n - 1), ev_end = assTime (of_int n),
              ev_fontSize = l_baseFontSize l, ev_text = escAss A \<rparr>,
           \<lparr> ev_start = assTime (of_int n), ev_end = assTime (of_int n + 1),
              ev_fontSize = l_baseFontSize l, ev_text = escAss B \<rparr>,
           \<lparr> ev_start = assTime (of_int n + 1), ev_end = assTime (of_int n + 2),
              ev_fontSize = l_baseFontSize l, ev_text = escAss A \<rparr>])"
proof -
  have same: "mergeFrameTexts [\<lparr> df_frameNumber = n, df_text = t \<rparr>, \<lparr> df_frameNumber = n + 1, df_text = t \<rparr>,
                       \<lparr> df_frameNumber = n + 2, df_text = t \<rparr>] 1
       = [\<lparr> me_text = t, me_start = of_int n - 1, me_end = of_int n + 2 \<rparr>]"
    by (simp add: mergeFrameTexts_def Let_def)
  have aba: "mergeFrameTexts [\<lparr> df_frameNumber = n, df_text = A \<rparr>, \<lparr> df_frameNumber = n + 1, df_text = B \<rparr>,
                         \<lparr> df_frameNumber = n + 2, df_text = A \<rparr>] 1
        = [\<lparr> me_text = A, me_start = of_int n - 1, me_end = of_int n \<rparr>,
           \<lparr> me_text = B, me_start = of_int n, me_end = of_int n + 1 \<rparr>,
           \<lparr> me_text = A, me_start = of_int n + 1, me_end = of_int n + 2 \<rparr>]" if "A \<noteq> B"
    using that by (auto simp: mergeFrameTexts_def Let_def)
  show ?thesis
    using mergeFrameTexts_snoc [of frames f fps]
    by (simp add: mergeFrameTexts_single same aba emitEvents_def)
qed

theorem run_length_merge_witness:
  "ascii ''A'' \<noteq> ascii ''B'' \<and> ascii ''A'' \<noteq> [] \<and> ascii ''B'' \<noteq> []
   \<and> emitEvents defaultLayout (mergeFrameTexts [\<lparr> df_frameNumber = 1, df_text = ascii ''A'' \<rparr>,
         \<lparr> df_frameNumber = 2, df_text = ascii ''A'' \<rparr>, \<lparr> df_frameNumber = 3, df_text = ascii ''A'' \<rparr>] 1)
       = [\<lparr> ev_start = 0, ev_end = 300, ev_fontSize = 44, ev_text = ascii ''A'' \<rparr>]
   \<and> emitEvents defaultLayout (mergeFrameTexts [\<lparr> df_frameNumber = 1, df_text = ascii ''A'' \<rparr>,
         \<lparr> df_frameNumber = 2, df_text = ascii ''B'' \<rparr>, \<lparr> df_frameNumber = 3, df_text = ascii ''A'' \<rparr>] 1)
       = [\<lparr> ev_start = 0, ev_end = 100, ev_fontSize = 44, ev_text = ascii ''A'' \<rparr>,
          \<lparr> ev_start = 100, ev_end = 200, ev_fontSize = 44, ev_text = ascii ''B'' \<rparr>,
          \<lparr> ev_start = 200, ev_end = 300, ev_fontSize = 44, ev_text = ascii ''A'' \<rparr>]"
proof -
  have h: "ascii ''A'' \<noteq> ascii ''B''" "ascii ''A'' \<noteq> []" "ascii ''B'' \<noteq> []"
    by (simp_all add: ascii_def)
  have v: "assTime (of_int 1 - 1) = 0" "assTime (of_int 1) = 100" "assTime (of_int 1 + 1) = 200"
    "assTime (of_int 1 + 2) = 300" "l_baseFontSize defaultLayout = 44"
    "escAss (ascii ''A'') = ascii ''A''" "escAss (ascii ''B'') = ascii ''B''"
    by code_simp+
  note inst = run_length_merge [where n = 1 and t = "ascii ''A''" and A = "ascii ''A''"
      and B = "ascii ''B''" and l = defaultLayout]
  from inst h have e1:
    "emitEvents defaultLayout (mergeFrameTexts [\<lparr> df_frameNumber = 1, df_text = ascii ''A'' \<rparr>,
         \<lparr> df_frameNumber = 1 + 1, df_text = ascii ''A'' \<rparr>, \<lparr> df_frameNumber = 1 + 2, df_text = ascii ''A'' \<rparr>] 1)
       = [\<lparr> ev_start = assTime (of_int 1 - 1), ev_end = assTime (of_int 1 + 2),
             ev_fontSize = l_baseFontSize defaultLayout, ev_text = escAss (ascii ''A'') \<rparr>]"
    by blast
  from inst h have e2:
    "emitEvents defaultLayout (mergeFrameTexts [\<lparr> df_frameNumber = 1, df_text = ascii ''A'' \<rparr>,
         \<lparr> df_frameNumber = 1 + 1, df_text = ascii ''B'' \<rparr>, \<lparr> df_frameNumber = 1 + 2, df_text = ascii ''A'' \<rparr>] 1)
       = [\<lparr> ev_start = assTime (of_int 1 - 1), ev_end = assTime (of_int 1),
             ev_fontSize = l_baseFontSize defaultLayout, ev_text = escAss (ascii ''A'') \<rparr>,
          \<lparr> ev_start = assTime (of_int 1), ev_end = assTime (of_int 1 + 1),
             ev_fontSize = l_baseFontSize defaultLayout, ev_text = escAss (ascii ''B'') \<rparr>,
          \<lparr> ev_start = assTime (of_int 1 + 1), ev_end = assTime (of_int 1 + 2),
             ev_fontSize = l_baseFontSize defaultLayout, ev_text = escAss (ascii ''A'') \<rparr>]"
    by blast
  from e1 e2 h v show ?thesis by simp
qed

lemma hd_le_last_increasing:
  assumes "sorted_wrt (<) (map f xs)" and "xs \<noteq> []"
  shows "(f (hd xs) :: int) \<le> f (last xs)"
proof -
  from assms(2) obtain x ys where xs: "xs = x # ys" by (cases xs) auto
  show ?thesis
  proof (cases "ys = []")
    case True
    with xs show ?thesis by simp
  next
    case False
    then have "last ys \<in> set ys" by simp
    with assms(1) xs have "f x < f (last ys)" by auto
    with xs False show ?thesis by simp
  qed
qed

lemma mergeInv_extend:
  assumes inv: "mergeInv frames es" and lt: "df_frameNumber (last frames) < df_frameNumber f"
    and hd: "df_frameNumber (hd frames) \<le> df_frameNumber (last frames)" and ne: "frames \<noteq> []"
  shows "mergeInv (frames @ [f]) (butlast es @ [(last es) \<lparr> me_end := of_int (df_frameNumber f) \<rparr>])"
    and "mergeInv (frames @ [f]) (es @ [newEvent 1 f])"
proof -
  let ?R = "\<lambda>a b. me_end a \<le> me_start b \<and> me_start a < me_start b"
  let ?L = "of_int (df_frameNumber (last frames)) :: rat"
  let ?H = "of_int (df_frameNumber (hd frames)) :: rat"
  let ?F = "of_int (df_frameNumber f) :: rat"
  from lt have ltr: "?L \<le> ?F - 1"
    by (metis of_int_1 of_int_diff of_int_le_iff zle_diff1_eq)
  from hd have hdr: "?H \<le> ?L" by simp
  from inv have es: "es \<noteq> []" and sw: "sorted_wrt ?R es"
    and each: "\<And>e. e \<in> set es \<Longrightarrow> me_start e < me_end e \<and> me_end e \<le> ?L \<and> ?H - 1 \<le> me_start e
                 \<and> me_start e \<in> \<int> \<and> me_end e \<in> \<int>"
    unfolding mergeInv_def by blast+
  from es have split: "es = butlast es @ [last es]" by simp
  have lastin: "last es \<in> set es" using es by simp
  have butin: "\<And>e. e \<in> set (butlast es) \<Longrightarrow> e \<in> set es" by (rule in_set_butlastD)
  have hdf: "hd (frames @ [f]) = hd frames" using ne by simp
  let ?c = "(last es) \<lparr> me_end := ?F \<rparr>"
  have sw1: "sorted_wrt ?R (butlast es @ [?c])"
  proof -
    from sw split have "sorted_wrt ?R (butlast es @ [last es])" by simp
    then show ?thesis by (simp add: sorted_wrt_append)
  qed
  have c1: "me_start ?c < me_end ?c \<and> me_end ?c \<le> ?F \<and> ?H - 1 \<le> me_start ?c
              \<and> me_start ?c \<in> \<int> \<and> me_end ?c \<in> \<int>"
    using each [OF lastin] ltr by simp
  have e1: "me_start e < me_end e \<and> me_end e \<le> ?F \<and> ?H - 1 \<le> me_start e
              \<and> me_start e \<in> \<int> \<and> me_end e \<in> \<int>" if "e \<in> set es" for e
    using each [OF that] ltr by simp
  show "mergeInv (frames @ [f]) (butlast es @ [?c])"
    unfolding mergeInv_def hdf using sw1 c1 e1 butin by auto
  let ?n = "newEvent 1 f"
  have n1: "me_start ?n < me_end ?n \<and> me_end ?n \<le> ?F \<and> ?H - 1 \<le> me_start ?n
              \<and> me_start ?n \<in> \<int> \<and> me_end ?n \<in> \<int>"
    using ltr hdr by (simp add: newEvent_def)
  have sw2: "sorted_wrt ?R (es @ [?n])"
  proof -
    have "?R e ?n" if "e \<in> set es" for e
      using each [OF that] ltr by (simp add: newEvent_def)
    with sw show ?thesis by (simp add: sorted_wrt_append)
  qed
  show "mergeInv (frames @ [f]) (es @ [?n])"
    unfolding mergeInv_def hdf using sw2 n1 e1 by (auto simp: newEvent_def)
qed

lemma merge_invariant:
  assumes "sorted_wrt (<) (map df_frameNumber frames)" and "frames \<noteq> []"
  shows "mergeInv frames (mergeFrameTexts frames 1)"
  using assms
proof (induction frames rule: rev_induct)
  case Nil
  then show ?case by simp
next
  case (snoc f frames)
  show ?case
  proof (cases "frames = []")
    case True
    then show ?thesis
      by (simp add: mergeFrameTexts_single newEvent_def mergeInv_def)
  next
    case False
    let ?es = "mergeFrameTexts frames 1"
    from snoc.prems have sw: "sorted_wrt (<) (map df_frameNumber frames)"
      and lt: "\<forall>g \<in> set frames. df_frameNumber g < df_frameNumber f"
      by (auto simp: sorted_wrt_append)
    from snoc.IH [OF sw False] have inv: "mergeInv frames ?es" .
    from lt False have ltl: "df_frameNumber (last frames) < df_frameNumber f" by simp
    have hdle: "df_frameNumber (hd frames) \<le> df_frameNumber (last frames)"
      using sw False by (rule hd_le_last_increasing)
    have "mergeFrameTexts (frames @ [f]) 1 = butlast ?es @ [(last ?es) \<lparr> me_end := of_int (df_frameNumber f) \<rparr>]
          \<or> mergeFrameTexts (frames @ [f]) 1 = ?es @ [newEvent 1 f]"
      using mergeFrameTexts_snoc [OF False, of f 1] by (simp add: Let_def)
    with mergeInv_extend [OF inv ltl hdle False] show ?thesis by metis
  qed
qed

lemma js_round_of_int: "js_round (of_int k) = k"
proof -
  have "\<lfloor>(of_int k :: rat) + 1 / 2\<rfloor> = k" by (rule floor_unique) simp_all
  then show ?thesis by (simp add: js_round_def)
qed

lemma assTime_of_int: "assTime (of_int k) = max 0 (100 * k)"
proof -
  have "(of_int k :: rat) * 100 = of_int (k * 100)" by simp
  then have "js_round (of_int k * 100) = k * 100" by (metis js_round_of_int)
  then show ?thesis by (simp add: assTime_def mult.commute)
qed

lemma assTime_mono: "x \<le> y \<Longrightarrow> assTime x \<le> assTime y"
  unfolding assTime_def js_round_def
  by (intro max.mono order_refl floor_mono) simp

lemma frameNumber_decide: "df_frameNumber (decide l (perFrame f)) = tf_frameNumber f"
  by (simp add: decide_def perFrame_def Let_def)

lemma frameNumbers_decided:
  "map df_frameNumber (map (decide l \<circ> perFrame) frames) = map tf_frameNumber frames"
  by (simp add: frameNumber_decide)

lemma assTime_strict:
  assumes "x \<in> \<int>" and "y \<in> \<int>" and "0 \<le> x" and "x < y"
  shows "assTime x < assTime y"
proof -
  from assms(1,2) obtain i j where x: "x = of_int i" and y: "y = of_int j"
    by (auto elim!: Ints_cases)
  with assms(3,4) have "0 \<le> i" "i < j" by simp_all
  then show ?thesis unfolding x y assTime_of_int by simp
qed

text \<open>
  C7. For frames with strictly increasing frame numbers the emitted events are ordered
  and their half-open ranges do not overlap: each event ends no later than every later
  event starts, starts never decrease, and no event ends before it starts. When the
  frame numbers are 1-indexed, as the frame extractor numbers them, the starts increase
  strictly and every range is non-empty.
\<close>

theorem events_ordered_non_overlapping:
  assumes "sorted_wrt (<) (map tf_frameNumber frames)"
  shows "sorted_wrt (\<lambda>a b. ev_end a \<le> ev_start b \<and> ev_start a \<le> ev_start b) (overlaySubtitlesBottomCenter l frames)
       \<and> (\<forall>e \<in> set (overlaySubtitlesBottomCenter l frames). ev_start e \<le> ev_end e)
       \<and> ((\<forall>f \<in> set frames. 1 \<le> tf_frameNumber f) \<longrightarrow>
            sorted_wrt (\<lambda>a b. ev_start a < ev_start b) (overlaySubtitlesBottomCenter l frames)
            \<and> (\<forall>e \<in> set (overlaySubtitlesBottomCenter l frames). ev_start e < ev_end e))"
proof (cases "frames = []")
  case True
  then show ?thesis
    by (simp add: overlaySubtitlesBottomCenter_def mergeFrameTexts_def emitEvents_def)
next
  case False
  let ?dec = "map (decide l \<circ> perFrame) frames"
  let ?es = "mergeFrameTexts ?dec 1"
  let ?g = "\<lambda>ev. \<lparr> ev_start = assTime (me_start ev), ev_end = assTime (me_end ev),
                 ev_fontSize = l_baseFontSize l, ev_text = escAss (me_text ev) \<rparr>"
  let ?kept = "filter (\<lambda>ev. me_text ev \<noteq> []) ?es"
  have ov: "overlaySubtitlesBottomCenter l frames = map ?g ?kept"
    by (simp add: overlaySubtitlesBottomCenter_def emitEvents_def)
  from False have ne: "?dec \<noteq> []" by simp
  have sw: "sorted_wrt (<) (map df_frameNumber ?dec)"
    using assms by (simp only: frameNumbers_decided)
  from merge_invariant [OF sw ne] have inv: "mergeInv ?dec ?es" .
  have hdn: "df_frameNumber (hd ?dec) = tf_frameNumber (hd frames)"
    using False by (simp add: hd_map frameNumber_decide)
  from inv have swm: "sorted_wrt (\<lambda>a b. me_end a \<le> me_start b \<and> me_start a < me_start b) ?es"
    by (simp add: mergeInv_def)
  from inv have each: "\<And>e. e \<in> set ?es \<Longrightarrow> me_start e < me_end e \<and> of_int (tf_frameNumber (hd frames)) - 1 \<le> me_start e
           \<and> me_start e \<in> \<int> \<and> me_end e \<in> \<int>"
    unfolding mergeInv_def hdn by blast
  have swf: "sorted_wrt (\<lambda>a b. me_end a \<le> me_start b \<and> me_start a < me_start b) ?kept"
    using swm by (rule sorted_wrt_filter)
  have keptD: "\<And>e. e \<in> set ?kept \<Longrightarrow> e \<in> set ?es" by simp
  have p1: "sorted_wrt (\<lambda>a b. ev_end a \<le> ev_start b \<and> ev_start a \<le> ev_start b) (overlaySubtitlesBottomCenter l frames)"
    unfolding ov sorted_wrt_map
  proof (rule sorted_wrt_mono_rel [OF _ swf])
    fix a b assume "me_end a \<le> me_start b \<and> me_start a < me_start b"
    then have "assTime (me_end a) \<le> assTime (me_start b)" "assTime (me_start a) \<le> assTime (me_start b)"
      by (simp_all add: assTime_mono)
    then show "ev_end (?g a) \<le> ev_start (?g b) \<and> ev_start (?g a) \<le> ev_start (?g b)" by simp
  qed
  have p2: "\<forall>e \<in> set (overlaySubtitlesBottomCenter l frames). ev_start e \<le> ev_end e"
  proof
    fix e assume "e \<in> set (overlaySubtitlesBottomCenter l frames)"
    then obtain m where m: "m \<in> set ?kept" and e: "e = ?g m" unfolding ov by auto
    from each [OF keptD [OF m]] have "me_start m \<le> me_end m" by simp
    then show "ev_start e \<le> ev_end e" unfolding e by (simp add: assTime_mono)
  qed
  have p3: "sorted_wrt (\<lambda>a b. ev_start a < ev_start b) (overlaySubtitlesBottomCenter l frames)
            \<and> (\<forall>e \<in> set (overlaySubtitlesBottomCenter l frames). ev_start e < ev_end e)"
    if pos: "\<forall>f \<in> set frames. 1 \<le> tf_frameNumber f"
  proof -
    from pos False have "1 \<le> tf_frameNumber (hd frames)" by simp
    then have h0: "(0::rat) \<le> of_int (tf_frameNumber (hd frames)) - 1" by simp
    have nonneg: "0 \<le> me_start e" if "e \<in> set ?es" for e
      using each [OF that] h0 by linarith
    have a: "sorted_wrt (\<lambda>a b. ev_start a < ev_start b) (overlaySubtitlesBottomCenter l frames)"
      unfolding ov sorted_wrt_map
    proof (rule sorted_wrt_mono_rel [OF _ swf])
      fix a b assume ab: "a \<in> set ?kept" "b \<in> set ?kept" "me_end a \<le> me_start b \<and> me_start a < me_start b"
      have "assTime (me_start a) < assTime (me_start b)"
        using each [OF keptD [OF ab(1)]] each [OF keptD [OF ab(2)]] nonneg [OF keptD [OF ab(1)]] ab(3)
        by (intro assTime_strict) simp_all
      then show "ev_start (?g a) < ev_start (?g b)" by simp
    qed
    have b: "\<forall>e \<in> set (overlaySubtitlesBottomCenter l frames). ev_start e < ev_end e"
    proof
      fix e assume "e \<in> set (overlaySubtitlesBottomCenter l frames)"
      then obtain m where m: "m \<in> set ?kept" and e: "e = ?g m" unfolding ov by auto
      have "assTime (me_start m) < assTime (me_end m)"
        using each [OF keptD [OF m]] nonneg [OF keptD [OF m]]
        by (intro assTime_strict) simp_all
      then show "ev_start e < ev_end e" unfolding e by simp
    qed
    from a b show ?thesis by simp
  qed
  from p1 p2 p3 show ?thesis by blast
qed


theorem events_ordered_non_overlapping_witness:
  "sorted_wrt (<) (map tf_frameNumber [textFrame 1 (ascii ''A''), textFrame 2 (ascii ''B''), textFrame 4 (ascii ''B'')])
   \<and> list_all (\<lambda>f. 1 \<le> tf_frameNumber f) [textFrame 1 (ascii ''A''), textFrame 2 (ascii ''B''), textFrame 4 (ascii ''B'')]
   \<and> sorted_wrt (\<lambda>a b. ev_end a \<le> ev_start b \<and> ev_start a \<le> ev_start b)
        (overlaySubtitlesBottomCenter defaultLayout [textFrame 1 (ascii ''A''), textFrame 2 (ascii ''B''), textFrame 4 (ascii ''B'')])
   \<and> sorted_wrt (\<lambda>a b. ev_start a < ev_start b)
        (overlaySubtitlesBottomCenter defaultLayout [textFrame 1 (ascii ''A''), textFrame 2 (ascii ''B''), textFrame 4 (ascii ''B'')])
   \<and> overlaySubtitlesBottomCenter defaultLayout [textFrame 1 (ascii ''A''), textFrame 2 (ascii ''B''), textFrame 4 (ascii ''B'')]
       = [\<lparr> ev_start = 0, ev_end = 100, ev_fontSize = 44, ev_text = ascii ''A'' \<rparr>,
          \<lparr> ev_start = 100, ev_end = 400, ev_fontSize = 44, ev_text = ascii ''B'' \<rparr>]"
proof -
  let ?frames = "[textFrame 1 (ascii ''A''), textFrame 2 (ascii ''B''), textFrame 4 (ascii ''B'')]"
  have h1: "sorted_wrt (<) (map tf_frameNumber ?frames)" by (simp add: textFrame_def)
  have h2: "\<forall>f \<in> set ?frames. 1 \<le> tf_frameNumber f" by (simp add: textFrame_def)
  have v: "overlaySubtitlesBottomCenter defaultLayout ?frames
       = [\<lparr> ev_start = 0, ev_end = 100, ev_fontSize = 44, ev_text = ascii ''A'' \<rparr>,
          \<lparr> ev_start = 100, ev_end = 400, ev_fontSize = 44, ev_text = ascii ''B'' \<rparr>]"
    by code_simp
  have h3: "list_all (\<lambda>f. 1 \<le> tf_frameNumber f) ?frames" by (simp add: textFrame_def)
  from events_ordered_non_overlapping [OF h1, of defaultLayout] h1 h2 h3 v show ?thesis by blast
qed

section \<open>Properties of the subtitle candidate filter\<close>

lemma occGet_addOccurrence:
  "occGet (addOccurrence n occ x) t = (if g_text x = t \<and> t \<noteq> [] then occGet occ t @ [n] else occGet occ t)"
  by (auto simp: occGet_def addOccurrence_def update_conv' orElse_def)

lemma occGet_inner:
  "occGet (foldl (addOccurrence n) occ ts) t =
     occGet occ t @ (if t = [] then [] else map (\<lambda>_. n) (filter (\<lambda>x. g_text x = t) ts))"
  by (induction ts arbitrary: occ) (auto simp: occGet_addOccurrence)

lemma occGet_outer:
  "occGet (foldl (\<lambda>occ f. foldl (addOccurrence (gf_frameNumber f)) occ (gf_texts f)) occ fs) t =
     occGet occ t @ (if t = [] then []
        else concat (map (\<lambda>f. map (\<lambda>_. gf_frameNumber f) (filter (\<lambda>x. g_text x = t) (gf_texts f))) fs))"
  by (induction fs arbitrary: occ) (auto simp: occGet_inner)

lemma set_occGet_occurrences:
  "set (occGet (occurrences prelim) t) = (if t = [] then {} else {n. survivesIn prelim t n})"
proof -
  have e: "occGet [] t = []" by (simp add: occGet_def orElse_def)
  have "occGet (occurrences prelim) t =
     (if t = [] then []
      else concat (map (\<lambda>f. map (\<lambda>_. gf_frameNumber f) (filter (\<lambda>x. g_text x = t) (gf_texts f))) prelim))"
    unfolding occurrences_def occGet_outer e by simp
  then show ?thesis
    by (auto simp: survivesIn_def list_ex_iff)
qed

lemma distinct_addOccurrence:
  "distinct (map fst occ) \<Longrightarrow> distinct (map fst (addOccurrence n occ x))"
  by (simp add: addOccurrence_def distinct_update)

lemma distinct_inner:
  "distinct (map fst occ) \<Longrightarrow> distinct (map fst (foldl (addOccurrence n) occ ts))"
  by (induction ts arbitrary: occ) (auto simp: distinct_addOccurrence)

lemma distinct_outer:
  "distinct (map fst occ) \<Longrightarrow>
   distinct (map fst (foldl (\<lambda>occ f. foldl (addOccurrence (gf_frameNumber f)) occ (gf_texts f)) occ fs))"
  by (induction fs arbitrary: occ) (auto simp: distinct_inner)

lemma distinct_occurrences: "distinct (map fst (occurrences prelim))"
  by (simp add: occurrences_def distinct_outer)

lemma hasConsecutive_sorted:
  "sorted xs \<Longrightarrow> hasConsecutive xs \<longleftrightarrow> (\<exists>n. n \<in> set xs \<and> n + 1 \<in> set xs)"
proof (induction xs rule: hasConsecutive.induct)
  case (1 a b rest)
  from 1(2) have sb: "sorted (b # rest)" and ab: "a \<le> b" and ar: "\<forall>z \<in> set rest. b \<le> z" by auto
  from 1(1) [OF sb] have IH: "hasConsecutive (b # rest) \<longleftrightarrow> (\<exists>n. n \<in> set (b # rest) \<and> n + 1 \<in> set (b # rest))" .
  show ?case
  proof
    assume "hasConsecutive (a # b # rest)"
    then consider "b = a + 1" | "hasConsecutive (b # rest)" by auto
    then show "\<exists>n. n \<in> set (a # b # rest) \<and> n + 1 \<in> set (a # b # rest)"
    proof cases
      case 1 then show ?thesis by (intro exI [of _ a]) simp
    next
      case 2
      with IH obtain n where "n \<in> set (b # rest)" "n + 1 \<in> set (b # rest)" by blast
      then show ?thesis by (intro exI [of _ n]) simp
    qed
  next
    assume "\<exists>n. n \<in> set (a # b # rest) \<and> n + 1 \<in> set (a # b # rest)"
    then obtain n where n: "n \<in> set (a # b # rest)" "n + 1 \<in> set (a # b # rest)" by blast
    have ge: "\<forall>z \<in> set (b # rest). b \<le> z" using ar by simp
    show "hasConsecutive (a # b # rest)"
    proof (cases "b = a + 1")
      case True then show ?thesis by simp
    next
      case False
      have "n \<in> set (b # rest) \<and> n + 1 \<in> set (b # rest)"
      proof (cases "n = a")
        case True
        with n(2) have n1: "a + 1 \<in> set (b # rest)" by simp
        with ge have "b \<le> a + 1" by blast
        with False ab have "b = a" by simp
        with True n1 show ?thesis by simp
      next
        case False
        with n(1) have nb: "n \<in> set (b # rest)" by simp
        with ge ab have "a \<le> n" by fastforce
        then have "n + 1 \<noteq> a" by simp
        with n(2) nb show ?thesis by simp
      qed
      with IH show ?thesis by auto
    qed
  qed
qed simp_all

lemma hasConsecutive_sort:
  "hasConsecutive (sort xs) \<longleftrightarrow> (\<exists>n. n \<in> set xs \<and> n + 1 \<in> set xs)"
  using hasConsecutive_sorted [of "sort xs"] by simp

lemma keepTexts_iff:
  "t \<in> set (keepTexts prelim) \<longleftrightarrow> t \<noteq> [] \<and> (\<exists>n. survivesIn prelim t n \<and> survivesIn prelim t (n + 1))"
proof -
  let ?occ = "occurrences prelim"
  have "t \<in> set (keepTexts prelim) \<longleftrightarrow> (\<exists>arr. (t, arr) \<in> set ?occ \<and> hasConsecutive (sort arr))"
    by (force simp: keepTexts_def)
  also have "\<dots> \<longleftrightarrow> (\<exists>arr. map_of ?occ t = Some arr \<and> hasConsecutive (sort arr))"
    using distinct_occurrences [of prelim] by simp
  also have "\<dots> \<longleftrightarrow> hasConsecutive (sort (occGet ?occ t))"
    by (cases "map_of ?occ t") (simp_all add: occGet_def orElse_def)
  also have "\<dots> \<longleftrightarrow> (\<exists>n. n \<in> set (occGet ?occ t) \<and> n + 1 \<in> set (occGet ?occ t))"
    by (rule hasConsecutive_sort)
  also have "\<dots> \<longleftrightarrow> t \<noteq> [] \<and> (\<exists>n. survivesIn prelim t n \<and> survivesIn prelim t (n + 1))"
    by (simp add: set_occGet_occurrences)
  finally show ?thesis .
qed

lemma charCount_pos_nonempty: "charCount s \<ge> 1 \<Longrightarrow> s \<noteq> []"
  by (auto simp: charCount_def)

lemma subtitleLike_nonempty: "subtitleLike env band t \<Longrightarrow> g_text t \<noteq> []"
proof -
  assume "subtitleLike env band t"
  then have "of_nat (charCount (g_text t)) \<ge> minChars env" by (simp add: subtitleLike_def Let_def)
  moreover have "minChars env \<ge> 1" by (simp add: minChars_def)
  ultimately have "(1::rat) \<le> of_nat (charCount (g_text t))" by linarith
  then have "1 \<le> charCount (g_text t)" by simp
  then show ?thesis by (rule charCount_pos_nonempty)
qed

lemma prelimFrame_nonempty:
  "x \<in> set (gf_texts (prelimFrame env f)) \<Longrightarrow> g_text x \<noteq> []"
proof -
  assume "x \<in> set (gf_texts (prelimFrame env f))"
  then have "x \<in> set (filter (subtitleLike env (regionBand env (estFrameHeight f))) (gf_texts f))"
    by (auto simp: prelimFrame_def dest: in_set_takeD)
  then show ?thesis by (auto dest: subtitleLike_nonempty)
qed

lemma survivesIn_prelim_nonempty:
  "survivesIn (map (prelimFrame env) frames) t n \<Longrightarrow> t \<noteq> []"
  by (auto simp: survivesIn_def list_ex_iff dest: prelimFrame_nonempty)

text \<open>
  C1. With persistence required, the result of \<open>filterSubtitleLike\<close> is the per-frame
  pass with exactly those lines kept whose text survived the per-frame pass in two frames
  with consecutive numbers; \<open>keepTexts\<close> holds exactly these texts. In particular a text
  that survived in frame 3 only is dropped, one that survived in frames 3 and 4 is kept,
  and one that survived in frames 3 and 5 is dropped.
\<close>

theorem persistence_filter:
  "(requirePersistence env \<longrightarrow>
      filterSubtitleLike env frames =
        map (\<lambda>f. f \<lparr> gf_texts := filter (\<lambda>x. \<exists>n. survivesIn (map (prelimFrame env) frames) (g_text x) n
                                              \<and> survivesIn (map (prelimFrame env) frames) (g_text x) (n + 1))
                          (gf_texts f) \<rparr>)
          (map (prelimFrame env) frames))
   \<and> (t \<in> set (keepTexts (map (prelimFrame env) frames)) \<longleftrightarrow>
        (\<exists>n. survivesIn (map (prelimFrame env) frames) t n \<and> survivesIn (map (prelimFrame env) frames) t (n + 1)))
   \<and> ((\<forall>n. survivesIn (map (prelimFrame env) frames) t n \<longleftrightarrow> n = 3)
        \<longrightarrow> t \<notin> set (keepTexts (map (prelimFrame env) frames)))
   \<and> ((\<forall>n. survivesIn (map (prelimFrame env) frames) t n \<longleftrightarrow> n = 3 \<or> n = 4)
        \<longrightarrow> t \<in> set (keepTexts (map (prelimFrame env) frames)))
   \<and> ((\<forall>n. survivesIn (map (prelimFrame env) frames) t n \<longleftrightarrow> n = 3 \<or> n = 5)
        \<longrightarrow> t \<notin> set (keepTexts (map (prelimFrame env) frames)))"
proof -
  let ?prelim = "map (prelimFrame env) frames"
  have k: "t \<in> set (keepTexts ?prelim) \<longleftrightarrow> (\<exists>n. survivesIn ?prelim t n \<and> survivesIn ?prelim t (n + 1))" for t
    using keepTexts_iff [of t ?prelim] survivesIn_prelim_nonempty [of env frames t] by blast
  have a: "requirePersistence env \<longrightarrow>
      filterSubtitleLike env frames =
        map (\<lambda>f. f \<lparr> gf_texts := filter (\<lambda>x. \<exists>n. survivesIn ?prelim (g_text x) n
                                              \<and> survivesIn ?prelim (g_text x) (n + 1))
                          (gf_texts f) \<rparr>) ?prelim"
    by (simp add: filterSubtitleLike_def persistenceFilter_def k Let_def)
  have c3: "t \<notin> set (keepTexts ?prelim)" if "\<forall>n. survivesIn ?prelim t n \<longleftrightarrow> n = 3"
    unfolding k using that by simp
  have c34: "t \<in> set (keepTexts ?prelim)" if "\<forall>n. survivesIn ?prelim t n \<longleftrightarrow> n = 3 \<or> n = 4"
    unfolding k using that by (intro exI [of _ 3]) simp
  have c35: "t \<notin> set (keepTexts ?prelim)" if "\<forall>n. survivesIn ?prelim t n \<longleftrightarrow> n = 3 \<or> n = 5"
    unfolding k using that by auto
  from a k [of t] c3 c34 c35 show ?thesis by blast
qed

theorem persistence_filter_witness:
  "requirePersistence filter_env_unset
   \<and> (\<forall>n. survivesIn (map (prelimFrame filter_env_unset) persistFrames) (ascii ''HELLO WORLD'') n \<longleftrightarrow> n = 3 \<or> n = 4)
   \<and> (\<forall>n. survivesIn (map (prelimFrame filter_env_unset) persistFrames) (ascii ''GOOD MORNING'') n \<longleftrightarrow> n = 3 \<or> n = 5)
   \<and> (\<forall>n. survivesIn (map (prelimFrame filter_env_unset) flickerFrames) (ascii ''HELLO WORLD'') n \<longleftrightarrow> n = 3)
   \<and> ascii ''HELLO WORLD'' \<in> set (keepTexts (map (prelimFrame filter_env_unset) persistFrames))
   \<and> ascii ''GOOD MORNING'' \<notin> set (keepTexts (map (prelimFrame filter_env_unset) persistFrames))
   \<and> ascii ''HELLO WORLD'' \<notin> set (keepTexts (map (prelimFrame filter_env_unset) flickerFrames))
   \<and> filterSubtitleLike filter_env_unset persistFrames =
       [\<lparr> gf_frameNumber = 3, gf_texts = [lineOf ''HELLO WORLD'' 500] \<rparr>,
        \<lparr> gf_frameNumber = 4, gf_texts = [lineOf ''HELLO WORLD'' 500] \<rparr>,
        \<lparr> gf_frameNumber = 5, gf_texts = [] \<rparr>]
   \<and> filterSubtitleLike filter_env_unset flickerFrames =
       [\<lparr> gf_frameNumber = 3, gf_texts = [] \<rparr>, \<lparr> gf_frameNumber = 4, gf_texts = [] \<rparr>]"
proof -
  have r: "requirePersistence filter_env_unset" by code_simp
  have p1: "map (prelimFrame filter_env_unset) persistFrames = persistFrames" by code_simp
  have p2: "map (prelimFrame filter_env_unset) flickerFrames = flickerFrames" by code_simp
  have ne: "ascii ''HELLO WORLD'' \<noteq> ascii ''GOOD MORNING''" by (simp add: ascii_def)
  have s1: "\<forall>n. survivesIn (map (prelimFrame filter_env_unset) persistFrames) (ascii ''HELLO WORLD'') n \<longleftrightarrow> n = 3 \<or> n = 4"
    unfolding p1 using ne by (auto simp: survivesIn_def persistFrames_def lineOf_def)
  have s2: "\<forall>n. survivesIn (map (prelimFrame filter_env_unset) persistFrames) (ascii ''GOOD MORNING'') n \<longleftrightarrow> n = 3 \<or> n = 5"
    unfolding p1 using ne by (auto simp: survivesIn_def persistFrames_def lineOf_def)
  have s3: "\<forall>n. survivesIn (map (prelimFrame filter_env_unset) flickerFrames) (ascii ''HELLO WORLD'') n \<longleftrightarrow> n = 3"
    unfolding p2 by (auto simp: survivesIn_def flickerFrames_def lineOf_def)
  have v1: "filterSubtitleLike filter_env_unset persistFrames =
       [\<lparr> gf_frameNumber = 3, gf_texts = [lineOf ''HELLO WORLD'' 500] \<rparr>,
        \<lparr> gf_frameNumber = 4, gf_texts = [lineOf ''HELLO WORLD'' 500] \<rparr>,
        \<lparr> gf_frameNumber = 5, gf_texts = [] \<rparr>]"
    by code_simp
  have v2: "filterSubtitleLike filter_env_unset flickerFrames =
       [\<lparr> gf_frameNumber = 3, gf_texts = [] \<rparr>, \<lparr> gf_frameNumber = 4, gf_texts = [] \<rparr>]"
    by code_simp
  from persistence_filter [of filter_env_unset persistFrames "ascii ''HELLO WORLD''"] s1
  have k1: "ascii ''HELLO WORLD'' \<in> set (keepTexts (map (prelimFrame filter_env_unset) persistFrames))"
    by blast
  from persistence_filter [of filter_env_unset persistFrames "ascii ''GOOD MORNING''"] s2
  have k2: "ascii ''GOOD MORNING'' \<notin> set (keepTexts (map (prelimFrame filter_env_unset) persistFrames))"
    by blast
  from persistence_filter [of filter_env_unset flickerFrames "ascii ''HELLO WORLD''"] s3
  have k3: "ascii ''HELLO WORLD'' \<notin> set (keepTexts (map (prelimFrame filter_env_unset) flickerFrames))"
    by blast
  from r s1 s2 s3 k1 k2 k3 v1 v2 show ?thesis by blast
qed

section \<open>Properties of the spacing normalisation\<close>
































section \<open>Properties of the box clusterer\<close>

lemma half_le_frac:
  assumes "0 \<le> i"
  shows "(1 / 2 \<le> (of_int i :: rat) / of_int m) \<longleftrightarrow> (1 \<le> m \<and> m \<le> 2 * i)"
proof (cases "0 < m")
  case True
  then have "(1 / 2 \<le> (of_int i :: rat) / of_int m) \<longleftrightarrow> (1 / 2 * of_int m \<le> (of_int i :: rat))"
    by (simp add: pos_le_divide_eq)
  also have "\<dots> \<longleftrightarrow> ((of_int m :: rat) \<le> of_int (2 * i))" by auto
  also have "\<dots> \<longleftrightarrow> m \<le> 2 * i" by (simp only: of_int_le_iff)
  finally show ?thesis using True by auto
next
  case False
  then have "(of_int m :: rat) \<le> 0" by simp
  moreover have "(0 :: rat) \<le> of_int i" using assms by simp
  ultimately have "(of_int i :: rat) / of_int m \<le> 0" by (simp add: divide_nonneg_nonpos)
  then have "\<not> (1 / 2 \<le> (of_int i :: rat) / of_int m)" by linarith
  with False show ?thesis by linarith
qed

lemma fraction_iff:
  "verticalOverlapFraction a b \<ge> 1 / 2 \<longleftrightarrow>
     1 \<le> min (b_height a) (b_height b)
     \<and> min (b_height a) (b_height b)
         \<le> 2 * max 0 (min (b_y a + b_height a) (b_y b + b_height b) - max (b_y a) (b_y b))"
  unfolding verticalOverlapFraction_def by (rule half_le_frac) simp

lemma overlapsY_iff:
  "overlapsY a sp \<longleftrightarrow>
     max 1 (min (b_height a) (snd sp))
       \<le> 2 * (max (max (b_y a) (fst sp)) (min (b_y a + b_height a) (fst sp + snd sp)) - max (b_y a) (fst sp))"
proof -
  let ?top = "max (b_y a) (fst sp)"
  let ?inter = "max ?top (min (b_y a + b_height a) (fst sp + snd sp)) - ?top"
  let ?minH = "max 1 (min (b_height a) (snd sp))"
  have "0 \<le> ?inter" by simp
  from half_le_frac [OF this, of ?minH]
  have "(1 / 2 \<le> (of_int ?inter :: rat) / of_int ?minH) \<longleftrightarrow> ?minH \<le> 2 * ?inter" by simp
  then show ?thesis by (simp add: overlapsY_def Let_def)
qed

lemma fraction_sym: "verticalOverlapFraction a b = verticalOverlapFraction b a"
  by (simp add: verticalOverlapFraction_def min.commute max.commute)

lemma overlapsY_from_first:
  assumes "verticalOverlapFraction t m \<ge> 1 / 2" and "b_y m \<le> b_y t"
    and "fst sp = b_y m" and "b_y m + b_height m \<le> fst sp + snd sp"
  shows "overlapsY t sp"
  using assms unfolding fraction_iff overlapsY_iff by (auto simp: min_def max_def split: if_splits)

lemma fraction_from_overlapsY:
  assumes "overlapsY t sp" and "b_y m \<le> b_y t" and "fst sp \<le> b_y m"
    and "b_y m + b_height m = fst sp + snd sp"
  shows "verticalOverlapFraction t m \<ge> 1 / 2"
  using assms unfolding fraction_iff overlapsY_iff by (auto simp: min_def max_def split: if_splits)

lemma sorted_wrt_insort_key:
  assumes "symp P" and "sorted_wrt P xs" and "\<forall>y \<in> set xs. P x y"
  shows "sorted_wrt P (insort_key k x xs)"
  using assms(2,3)
proof (induction xs)
  case Nil
  then show ?case by simp
next
  case (Cons y ys)
  from Cons.prems have "P x y" by simp
  with assms(1) have "P y x" by (simp add: sympD)
  with Cons show ?case by (auto simp: set_insort_key)
qed

lemma sorted_wrt_sort_key:
  assumes "symp P" and "sorted_wrt P xs"
  shows "sorted_wrt P (sort_key k xs)"
  using assms(2)
proof (induction xs)
  case Nil
  then show ?case by simp
next
  case (Cons x xs)
  then have "sorted_wrt P (sort_key k xs)" and "\<forall>y \<in> set (sort_key k xs). P x y" by auto
  with assms(1) show ?case by (simp add: sorted_wrt_insort_key)
qed

lemma sortedItems_by_y: "sorted_wrt (\<lambda>a b. b_y a \<le> b_y b) (sortedItems boxes)"
proof -
  have "sorted (map (\<lambda>b. (b_y b, b_x b)) (sortedItems boxes))"
    unfolding sortedItems_def by (rule sorted_sort_key)
  then have "sorted_wrt (\<lambda>a b. (b_y a, b_x a) \<le> (b_y b, b_x b)) (sortedItems boxes)"
    by (simp add: sorted_map)
  then show ?thesis
    by (rule sorted_wrt_mono_rel [rotated]) (auto simp: less_eq_prod_def)
qed

lemma place_single:
  assumes "overlapsY t sp"
  shows "place t [(items, sp)] =
           [(items @ [t], (min (fst sp) (b_y t), max (fst sp + snd sp) (b_y t + b_height t) - min (fst sp) (b_y t)))]"
  using assms by (simp add: Let_def)

lemma fold_single_line:
  assumes "m \<in> set items" and "fst sp = b_y m" and "b_y m + b_height m \<le> fst sp + snd sp"
    and "\<forall>t \<in> set ts. verticalOverlapFraction t m \<ge> 1 / 2 \<and> b_y m \<le> b_y t"
  shows "\<exists>items' sp'. foldl (\<lambda>lines t. place t lines) [(items, sp)] ts = [(items', sp')]
            \<and> items' = items @ ts"
  using assms
proof (induction ts arbitrary: items sp)
  case Nil
  then show ?case by simp
next
  case (Cons t ts)
  from Cons.prems have ov: "overlapsY t sp"
    by (intro overlapsY_from_first [of t m]) auto
  let ?sp = "(min (fst sp) (b_y t), max (fst sp + snd sp) (b_y t + b_height t) - min (fst sp) (b_y t))"
  have step: "place t [(items, sp)] = [(items @ [t], ?sp)]" using ov by (rule place_single)
  from Cons.prems have yt: "b_y m \<le> b_y t" by simp
  have 1: "m \<in> set (items @ [t])" using Cons.prems(1) by simp
  have 2: "fst ?sp = b_y m" using Cons.prems(2) yt by simp
  have 3: "b_y m + b_height m \<le> fst ?sp + snd ?sp" using Cons.prems(2,3) yt by simp
  have 4: "\<forall>t \<in> set ts. verticalOverlapFraction t m \<ge> 1 / 2 \<and> b_y m \<le> b_y t" using Cons.prems(4) by simp
  from Cons.IH [OF 1 2 3 4] obtain sp' where
    "foldl (\<lambda>lines t. place t lines) [(items @ [t], ?sp)] ts = [((items @ [t]) @ ts, sp')]"
    by blast
  then have "foldl (\<lambda>lines t. place t lines) [(items, sp)] (t # ts) = [(items @ t # ts, sp')]"
    by (simp only: foldl_Cons step append_assoc append_Cons append_Nil)
  then show ?case by blast
qed

lemma clusterLines_single:
  assumes "sorted_wrt (\<lambda>a b. verticalOverlapFraction a b \<ge> 1 / 2) boxes" and "boxes \<noteq> []"
  shows "clusterLines boxes = [(sortedItems boxes, snd (hd (clusterLines boxes)))]"
proof -
  let ?P = "\<lambda>a b. verticalOverlapFraction a b \<ge> 1 / 2"
  have sym: "symp ?P" by (auto simp: symp_def fraction_sym)
  have sw: "sorted_wrt ?P (sortedItems boxes)"
    unfolding sortedItems_def using sym assms(1) by (rule sorted_wrt_sort_key)
  have "length (sortedItems boxes) = length boxes" by (simp add: sortedItems_def)
  with assms(2) have "sortedItems boxes \<noteq> []" by auto
  then obtain m ts where s: "sortedItems boxes = m # ts" by (cases "sortedItems boxes") auto
  from sw s have p: "\<forall>t \<in> set ts. ?P m t" by simp
  from sortedItems_by_y [of boxes] s have y: "\<forall>t \<in> set ts. b_y m \<le> b_y t" by simp
  from p y have 4: "\<forall>t \<in> set ts. verticalOverlapFraction t m \<ge> 1 / 2 \<and> b_y m \<le> b_y t"
    by (simp add: fraction_sym)
  have "\<exists>items' sp'. foldl (\<lambda>lines t. place t lines) [([m], (b_y m, b_height m))] ts = [(items', sp')]
            \<and> items' = [m] @ ts"
    by (rule fold_single_line [OF _ _ _ 4]) simp_all
  then obtain sp' where "foldl (\<lambda>lines t. place t lines) [([m], (b_y m, b_height m))] ts = [(m # ts, sp')]"
    by auto
  then have "clusterLines boxes = [(m # ts, sp')]" by (simp add: clusterLines_def s)
  then show ?thesis by (simp add: s)
qed

lemma linked_sym: "sym ((linked S)\<^sup>*)"
proof (rule sym_rtrancl)
  show "sym (linked S)" by (auto simp: sym_def linked_def fraction_sym)
qed

lemma lineOK_new: "t \<in> S \<Longrightarrow> lineOK S ([t], (b_y t, b_height t))"
  by (simp add: lineOK_def)

lemma lineOK_join:
  assumes ok: "lineOK S (items, sp)" and tS: "t \<in> S" and le: "\<forall>m \<in> set items. b_y m \<le> b_y t"
    and ov: "overlapsY t sp"
  shows "lineOK S (items @ [t], (min (fst sp) (b_y t), max (fst sp + snd sp) (b_y t + b_height t) - min (fst sp) (b_y t)))"
proof -
  from ok have ne: "items \<noteq> []" and sub: "set items \<subseteq> S" and lo: "\<forall>m \<in> set items. fst sp \<le> b_y m"
    and conn: "\<forall>a \<in> set items. \<forall>b \<in> set items. (a, b) \<in> (linked S)\<^sup>*"
    by (simp_all add: lineOK_def)
  from ok obtain mE where mE: "mE \<in> set items" "b_y mE + b_height mE = fst sp + snd sp"
    by (auto simp: lineOK_def)
  from mE(1) lo le have y0: "fst sp \<le> b_y t" by fastforce
  have frac: "verticalOverlapFraction t mE \<ge> 1 / 2"
    using ov le lo mE by (intro fraction_from_overlapsY [of t sp mE]) auto
  with tS mE(1) sub have link: "(t, mE) \<in> linked S" by (auto simp: linked_def)
  have tm: "(t, b) \<in> (linked S)\<^sup>*" if "b \<in> set items" for b
  proof -
    from link have "(t, mE) \<in> (linked S)\<^sup>*" by (rule r_into_rtrancl)
    moreover from conn mE(1) that have "(mE, b) \<in> (linked S)\<^sup>*" by blast
    ultimately show ?thesis by (rule rtrancl_trans)
  qed
  have mt: "(b, t) \<in> (linked S)\<^sup>*" if "b \<in> set items" for b
    using tm [OF that] linked_sym [of S] by (simp add: sym_def)
  have c': "\<forall>a \<in> set (items @ [t]). \<forall>b \<in> set (items @ [t]). (a, b) \<in> (linked S)\<^sup>*"
    using conn tm mt by auto
  let ?sp = "(min (fst sp) (b_y t), max (fst sp + snd sp) (b_y t + b_height t) - min (fst sp) (b_y t))"
  have e': "\<exists>m \<in> set (items @ [t]). b_y m + b_height m = fst ?sp + snd ?sp"
  proof (cases "b_y t + b_height t \<le> fst sp + snd sp")
    case True
    with mE show ?thesis by (intro bexI [of _ mE]) (simp_all add: max_def)
  next
    case False
    then show ?thesis by (intro bexI [of _ t]) (simp_all add: max_def)
  qed
  have l': "\<forall>m \<in> set (items @ [t]). fst ?sp \<le> b_y m" using lo y0 by auto
  from ne sub tS c' e' l' show ?thesis unfolding lineOK_def by simp
qed

lemma place_ok:
  assumes "\<forall>l \<in> set lines. lineOK S l" and "t \<in> S"
    and "\<forall>l \<in> set lines. \<forall>m \<in> set (fst l). b_y m \<le> b_y t"
  shows "\<forall>l \<in> set (place t lines). lineOK S l"
  using assms
proof (induction lines)
  case Nil
  then show ?case by (simp add: lineOK_new)
next
  case (Cons line lines)
  show ?case
  proof (cases "overlapsY t (snd line)")
    case True
    from Cons.prems have "lineOK S (fst line, snd line)" and "\<forall>m \<in> set (fst line). b_y m \<le> b_y t" by simp_all
    from lineOK_join [OF this(1) Cons.prems(2) this(2) True] Cons.prems(1) True
    show ?thesis by (simp add: Let_def)
  next
    case False
    with Cons show ?thesis by simp
  qed
qed

lemma place_mset: "mset (concat (map fst (place t lines))) = mset (concat (map fst lines)) + {#t#}"
  by (induction lines) (auto simp: Let_def)

lemma fold_mset:
  "mset (concat (map fst (foldl (\<lambda>lines t. place t lines) lines ts))) = mset (concat (map fst lines)) + mset ts"
  by (induction ts arbitrary: lines) (simp_all add: place_mset)

lemma fold_ok:
  assumes "\<forall>l \<in> set lines. lineOK S l" and "set ts \<subseteq> S" and "sorted_wrt (\<lambda>a b. b_y a \<le> b_y b) ts"
    and "\<forall>t \<in> set ts. \<forall>l \<in> set lines. \<forall>m \<in> set (fst l). b_y m \<le> b_y t"
  shows "\<forall>l \<in> set (foldl (\<lambda>lines t. place t lines) lines ts). lineOK S l"
  using assms
proof (induction ts arbitrary: lines)
  case Nil
  then show ?case by simp
next
  case (Cons t ts)
  have 1: "\<forall>l \<in> set (place t lines). lineOK S l"
    using Cons.prems by (intro place_ok) auto
  have 2: "set ts \<subseteq> S" using Cons.prems(2) by simp
  have 3: "sorted_wrt (\<lambda>a b. b_y a \<le> b_y b) ts" using Cons.prems(3) by simp
  have mem: "m = t \<or> (\<exists>l \<in> set lines. m \<in> set (fst l))" if "l \<in> set (place t lines)" "m \<in> set (fst l)" for l m
  proof -
    from that have "m \<in># mset (concat (map fst (place t lines)))" by auto
    then have "m \<in># mset (concat (map fst lines)) + {#t#}" by (simp only: place_mset)
    then show ?thesis by auto
  qed
  have 4: "\<forall>t' \<in> set ts. \<forall>l \<in> set (place t lines). \<forall>m \<in> set (fst l). b_y m \<le> b_y t'"
  proof (intro ballI)
    fix t' l m assume a: "t' \<in> set ts" "l \<in> set (place t lines)" "m \<in> set (fst l)"
    from mem [OF a(2,3)] show "b_y m \<le> b_y t'"
    proof
      assume "m = t"
      with Cons.prems(3) a(1) show ?thesis by simp
    next
      assume "\<exists>l \<in> set lines. m \<in> set (fst l)"
      with Cons.prems(4) a(1) show ?thesis by auto
    qed
  qed
  from Cons.IH [OF 1 2 3 4] show ?case by simp
qed

lemma clusterLines_ok: "\<forall>l \<in> set (clusterLines boxes). lineOK (set boxes) l"
proof -
  have s: "set (sortedItems boxes) \<subseteq> set boxes" by (simp add: sortedItems_def)
  show ?thesis
    unfolding clusterLines_def
    by (rule fold_ok [OF _ s sortedItems_by_y]) simp_all
qed

lemma clusterLines_mset: "mset (concat (map fst (clusterLines boxes))) = mset boxes"
  by (simp add: clusterLines_def fold_mset sortedItems_def)

lemma pairwise_index_iff:
  assumes "symp P"
  shows "(\<forall>i < length xs. \<forall>j < length xs. i \<noteq> j \<longrightarrow> P (xs ! i) (xs ! j)) \<longleftrightarrow> sorted_wrt P xs"
proof
  assume "\<forall>i < length xs. \<forall>j < length xs. i \<noteq> j \<longrightarrow> P (xs ! i) (xs ! j)"
  then show "sorted_wrt P xs" by (simp add: sorted_wrt_iff_nth_less)
next
  assume sw: "sorted_wrt P xs"
  show "\<forall>i < length xs. \<forall>j < length xs. i \<noteq> j \<longrightarrow> P (xs ! i) (xs ! j)"
  proof (intro allI impI)
    fix i j assume ij: "i < length xs" "j < length xs" "i \<noteq> j"
    then consider "i < j" | "j < i" by linarith
    then show "P (xs ! i) (xs ! j)"
    proof cases
      case 1
      with sw ij show ?thesis by (simp add: sorted_wrt_iff_nth_less)
    next
      case 2
      with sw ij have "P (xs ! j) (xs ! i)" by (simp add: sorted_wrt_iff_nth_less)
      with assms show ?thesis by (simp add: sympD)
    qed
  qed
qed

lemma fraction_symp: "symp (\<lambda>a b. verticalOverlapFraction a b \<ge> 1 / 2)"
  by (auto simp: symp_def fraction_sym)

lemma overlapsY_box: "overlapsY a (b_y b, b_height b) = (verticalOverlapFraction a b \<ge> 1 / 2)"
  unfolding fraction_iff overlapsY_iff by (auto simp: min_def max_def split: if_splits)

text \<open>
  C4 (as the code has it). Boxes are placed in the order of their \<open>(y, x)\<close> coordinates,
  each in the first line whose running span it overlaps. When every two boxes of a frame
  have a vertical overlap fraction of at least one half, all of them are placed in one
  line, and \<open>groupTextsIntoLines\<close> returns one group. Two boxes that end up
  in the same line are always connected by a chain of boxes of the frame in which each
  box and the next have a fraction of at least one half; so two boxes with a fraction
  below one half and no such chain are placed in different lines. Every box is placed in
  exactly one line. On a pair of boxes the test of the source and the fraction of the
  specification agree.
\<close>

theorem box_clusterer_grouping:
  "(boxes \<noteq> [] \<and> (\<forall>i < length boxes. \<forall>j < length boxes. i \<noteq> j \<longrightarrow>
                      verticalOverlapFraction (boxes ! i) (boxes ! j) \<ge> 1 / 2)
      \<longrightarrow> (\<exists>items sp. clusterLines boxes = [(items, sp)] \<and> mset items = mset boxes)
          \<and> length (gf_texts (groupTextsIntoLines \<lparr> fd_frameNumber = n, fd_texts = boxes \<rparr>)) = 1)
   \<and> (a \<in> set boxes \<and> b \<in> set boxes \<and> verticalOverlapFraction a b < 1 / 2
        \<and> (a, b) \<notin> (linked (set boxes))\<^sup>*
      \<longrightarrow> \<not> (\<exists>l \<in> set (clusterLines boxes). a \<in> set (fst l) \<and> b \<in> set (fst l)))
   \<and> mset (concat (map fst (clusterLines boxes))) = mset boxes
   \<and> overlapsY a (b_y b, b_height b) = (verticalOverlapFraction a b \<ge> 1 / 2)"
proof (intro conjI impI)
  assume h: "boxes \<noteq> [] \<and> (\<forall>i < length boxes. \<forall>j < length boxes. i \<noteq> j \<longrightarrow>
                      verticalOverlapFraction (boxes ! i) (boxes ! j) \<ge> 1 / 2)"
  then have sw: "sorted_wrt (\<lambda>a b. verticalOverlapFraction a b \<ge> 1 / 2) boxes"
    using pairwise_index_iff [OF fraction_symp, of boxes] by blast
  from h have ne: "boxes \<noteq> []" by simp
  have one: "clusterLines boxes = [(sortedItems boxes, snd (hd (clusterLines boxes)))]"
    using sw ne by (rule clusterLines_single)
  have "mset (sortedItems boxes) = mset boxes" by (simp add: sortedItems_def)
  with one show "\<exists>items sp. clusterLines boxes = [(items, sp)] \<and> mset items = mset boxes" by blast
  from one have "length (clusterLines boxes) = 1" by (metis length_Cons list.size(3) One_nat_def)
  then show "length (gf_texts (groupTextsIntoLines \<lparr> fd_frameNumber = n, fd_texts = boxes \<rparr>)) = 1"
    by (simp add: groupTextsIntoLines_def)
next
  assume h: "a \<in> set boxes \<and> b \<in> set boxes \<and> verticalOverlapFraction a b < 1 / 2
        \<and> (a, b) \<notin> (linked (set boxes))\<^sup>*"
  show "\<not> (\<exists>l \<in> set (clusterLines boxes). a \<in> set (fst l) \<and> b \<in> set (fst l))"
  proof
    assume "\<exists>l \<in> set (clusterLines boxes). a \<in> set (fst l) \<and> b \<in> set (fst l)"
    then obtain l where l: "l \<in> set (clusterLines boxes)" "a \<in> set (fst l)" "b \<in> set (fst l)" by blast
    from clusterLines_ok [of boxes] l(1) have "lineOK (set boxes) l" by blast
    with l(2,3) have "(a, b) \<in> (linked (set boxes))\<^sup>*" by (simp add: lineOK_def)
    with h show False by simp
  qed
next
  show "mset (concat (map fst (clusterLines boxes))) = mset boxes" by (rule clusterLines_mset)
next
  show "overlapsY a (b_y b, b_height b) = (verticalOverlapFraction a b \<ge> 1 / 2)"
    by (rule overlapsY_box)
qed

theorem box_clusterer_grouping_witness:
  "rowBoxes \<noteq> []
   \<and> sorted_wrt (\<lambda>a b. verticalOverlapFraction a b \<ge> 1 / 2) rowBoxes
   \<and> length (gf_texts (groupTextsIntoLines \<lparr> fd_frameNumber = 1, fd_texts = rowBoxes \<rparr>)) = 1
   \<and> map g_text (gf_texts (groupTextsIntoLines \<lparr> fd_frameNumber = 1, fd_texts = rowBoxes \<rparr>))
        = [ascii ''HELLO WORLD AGAIN'']
   \<and> boxAt ''TOP'' 100 100 30 \<in> set farBoxes \<and> boxAt ''BOTTOM'' 100 500 30 \<in> set farBoxes
   \<and> verticalOverlapFraction (boxAt ''TOP'' 100 100 30) (boxAt ''BOTTOM'' 100 500 30) < 1 / 2
   \<and> (boxAt ''TOP'' 100 100 30, boxAt ''BOTTOM'' 100 500 30) \<notin> (linked (set farBoxes))\<^sup>*
   \<and> \<not> (\<exists>l \<in> set (clusterLines farBoxes).
           boxAt ''TOP'' 100 100 30 \<in> set (fst l) \<and> boxAt ''BOTTOM'' 100 500 30 \<in> set (fst l))
   \<and> map g_text (gf_texts (groupTextsIntoLines \<lparr> fd_frameNumber = 1, fd_texts = farBoxes \<rparr>))
        = [ascii ''TOP'', ascii ''BOTTOM'']"
proof -
  let ?top = "boxAt ''TOP'' 100 100 30" and ?bot = "boxAt ''BOTTOM'' 100 500 30"
  have ne: "rowBoxes \<noteq> []" by (simp add: rowBoxes_def)
  have sw: "sorted_wrt (\<lambda>a b. verticalOverlapFraction a b \<ge> 1 / 2) rowBoxes"
    by code_simp
  then have pw: "\<forall>i < length rowBoxes. \<forall>j < length rowBoxes. i \<noteq> j \<longrightarrow>
                      verticalOverlapFraction (rowBoxes ! i) (rowBoxes ! j) \<ge> 1 / 2"
    using pairwise_index_iff [OF fraction_symp, of rowBoxes] by blast
  from box_clusterer_grouping [of rowBoxes 1] ne pw
  have one: "length (gf_texts (groupTextsIntoLines \<lparr> fd_frameNumber = 1, fd_texts = rowBoxes \<rparr>)) = 1"
    by blast
  have v1: "map g_text (gf_texts (groupTextsIntoLines \<lparr> fd_frameNumber = 1, fd_texts = rowBoxes \<rparr>))
        = [ascii ''HELLO WORLD AGAIN'']"
    by code_simp
  have v2: "map g_text (gf_texts (groupTextsIntoLines \<lparr> fd_frameNumber = 1, fd_texts = farBoxes \<rparr>))
        = [ascii ''TOP'', ascii ''BOTTOM'']"
    by code_simp
  have m1: "?top \<in> set farBoxes" and m2: "?bot \<in> set farBoxes" by (simp_all add: farBoxes_def)
  have fr: "\<not> (verticalOverlapFraction ?top ?bot \<ge> 1 / 2)" "\<not> (verticalOverlapFraction ?bot ?top \<ge> 1 / 2)"
    by code_simp+
  then have lt: "verticalOverlapFraction ?top ?bot < 1 / 2" by simp
  have neq: "?top \<noteq> ?bot" by (simp add: boxAt_def)
  have stay: "x = ?top" if "(?top, x) \<in> (linked (set farBoxes))\<^sup>*" for x
    using that
  proof (induction rule: rtrancl_induct)
    case base
    show ?case by simp
  next
    case (step y z)
    then have "(?top, z) \<in> linked (set farBoxes)" by simp
    then have "z \<in> set farBoxes" "verticalOverlapFraction ?top z \<ge> 1 / 2" by (simp_all add: linked_def)
    with fr(1) show ?case by (auto simp: farBoxes_def)
  qed
  have nochain: "(?top, ?bot) \<notin> (linked (set farBoxes))\<^sup>*"
    using stay [of ?bot] neq by auto
  from box_clusterer_grouping [of farBoxes 1 ?top ?bot] m1 m2 lt nochain
  have sep: "\<not> (\<exists>l \<in> set (clusterLines farBoxes). ?top \<in> set (fst l) \<and> ?bot \<in> set (fst l))"
    by blast
  from ne sw one v1 m1 m2 lt nochain sep v2 show ?thesis by blast
qed


text \<open>
  C4 as the specification states it fails for a set of boxes that is not the whole frame.
  The boxes \<open>A\<close> and \<open>B\<close> have a fraction of exactly one half, but \<open>A\<close> is placed in the line
  of the tall box \<open>TITLE\<close> sorted before them, whose span \<open>B\<close> overlaps by 30 of 100 only:
  \<open>B\<close> opens a line of its own.
\<close>

theorem clique_split_counterexample:
  "verticalOverlapFraction (nestedBoxes ! 1) (nestedBoxes ! 2) = 1 / 2
   \<and> map (map b_text) (map fst (clusterLines nestedBoxes)) = [[ascii ''TITLE'', ascii ''A''], [ascii ''B'']]
   \<and> map snd (clusterLines nestedBoxes) = [(0, 100), (70, 100)]
   \<and> map g_text (gf_texts (groupTextsIntoLines \<lparr> fd_frameNumber = 1, fd_texts = nestedBoxes \<rparr>))
        = [ascii ''TITLE A'', ascii ''B'']"
  by code_simp


end
